theory Spec2Isabelle
  imports Complex_Main "HOL-Library.AList" "HOL-Library.Sublist"
begin

section \<open>JavaScript values\<close>

text \<open>
  The model of \<^verbatim>\<open>static/js/models/thing-model.js\<close> works on JSON-like values.
  Numbers are never computed with by \<^verbatim>\<open>ThingModel\<close>: they are parsed by the
  built-ins \<^verbatim>\<open>parseFloat\<close> and \<^verbatim>\<open>parseInt\<close>, tested for truthiness, serialised and
  passed on. The type \<open>jsnum\<close> therefore only has to tell the special values apart
  from the finite ones; every finite double is a rational number.
\<close>

datatype jsnum = NaN | PosInfinity | NegInfinity | NegZero | Num rat

text \<open>
  \<open>JObject kvs\<close> is the object that \<^verbatim>\<open>JSON.parse\<close> makes of a text with the members
  \<open>kvs\<close> in this order: every member becomes an own data property, a key that is named
  twice keeps its last value. Its prototype is \<^verbatim>\<open>Object.prototype\<close>. An object that the
  model builds itself is written the same way, with its own properties in the order of
  their enumeration.
\<close>

datatype jsval =
    JUndefined
  | JNull
  | JBool bool
  | JNumber jsnum
  | JString string
  | JArray "jsval list"
  | JObject "(string \<times> jsval) list"

type_synonym jsobject = "(string \<times> jsval) list"

datatype js_error = TypeError | SyntaxError

subsection \<open>Own properties and their order\<close>

text \<open>Array indices as property names: the decimal numeral of the index, and back.\<close>

definition digit_char :: "nat \<Rightarrow> char" where
  "digit_char d = char_of (48 + d)"

fun index_key :: "nat \<Rightarrow> string" where
  "index_key n = (if n < 10 then [digit_char n] else index_key (n div 10) @ [digit_char (n mod 10)])"

declare index_key.simps [simp del]

definition digit_value :: "char \<Rightarrow> nat" where
  "digit_value c = of_char c - 48"

definition index_of_key :: "string \<Rightarrow> nat" where
  "index_of_key s = foldl (\<lambda>n c. 10 * n + digit_value c) 0 s"

text \<open>
  A key is an array index when it is the canonical numeral of a number below
  \<open>2\<^sup>3\<^sup>2 - 1\<close>. The own properties of an object are enumerated with the array
  indices first, in ascending order, and then the other keys in the order of their
  creation. \<open>enumerated_before k k'\<close>: a new key \<open>k\<close> takes its place before the
  existing key \<open>k'\<close>.
\<close>

definition is_index :: "string \<Rightarrow> bool" where
  "is_index k = (index_key (index_of_key k) = k \<and> index_of_key k < 4294967295)"

definition enumerated_before :: "string \<Rightarrow> string \<Rightarrow> bool" where
  "enumerated_before k k' =
     (is_index k \<and> (if is_index k' then index_of_key k < index_of_key k' else True))"

text \<open>
  An object is the list of its own enumerable properties in the order of enumeration.
  \<open>hasOwnProperty obj k\<close> is what the built-in \<^verbatim>\<open>Object.prototype.hasOwnProperty\<close>
  answers for the object and the key.
\<close>

definition hasOwnProperty :: "(string \<times> 'a) list \<Rightarrow> string \<Rightarrow> bool" where
  "hasOwnProperty obj k = (map_of obj k \<noteq> None)"

fun insert_property :: "string \<Rightarrow> 'a \<Rightarrow> (string \<times> 'a) list \<Rightarrow> (string \<times> 'a) list" where
  "insert_property k v [] = [(k, v)]"
| "insert_property k v ((k', v') # rest) =
     (if enumerated_before k k' then (k, v) # (k', v') # rest
      else (k', v') # insert_property k v rest)"

text \<open>
  Writing the own data property \<open>k\<close> of an object: an existing key keeps its place,
  a new one is created.
\<close>

definition assign :: "string \<Rightarrow> 'a \<Rightarrow> (string \<times> 'a) list \<Rightarrow> (string \<times> 'a) list" where
  "assign k v obj = (if hasOwnProperty obj k then AList.update k v obj else insert_property k v obj)"

definition object_literal :: "(string \<times> 'a) list \<Rightarrow> (string \<times> 'a) list" where
  "object_literal kvs = fold (\<lambda>(k, v) obj. assign k v obj) kvs []"

text \<open>
  The own enumerable properties of a value, as \<^verbatim>\<open>for ... in\<close> and \<^verbatim>\<open>Object.assign\<close>
  see them: the properties of an object, the elements of an array and the characters
  of a string under their indices, and nothing for the other primitives, \<^verbatim>\<open>null\<close> and
  \<^verbatim>\<open>undefined\<close>.
\<close>

fun own_entries :: "jsval \<Rightarrow> (string \<times> jsval) list" where
  "own_entries (JObject kvs) = object_literal kvs"
| "own_entries (JArray xs) = zip (map index_key [0..<length xs]) xs"
| "own_entries (JString s) = zip (map index_key [0..<length s]) (map (\<lambda>c. JString [c]) s)"
| "own_entries _ = []"

text \<open>
  Reading a property \<^verbatim>\<open>v.k\<close> for a name \<open>k\<close> that no built-in prototype defines
  (\<^verbatim>\<open>messageType\<close>, \<^verbatim>\<open>data\<close>): a \<^verbatim>\<open>TypeError\<close> on \<^verbatim>\<open>null\<close> and \<^verbatim>\<open>undefined\<close>,
  \<^verbatim>\<open>undefined\<close> where the property is missing.
\<close>

definition get_field :: "jsval \<Rightarrow> string \<Rightarrow> js_error + jsval" where
  "get_field v k =
     (if v = JNull \<or> v = JUndefined then Inl TypeError
      else case map_of (own_entries v) k of None \<Rightarrow> Inr JUndefined | Some x \<Rightarrow> Inr x)"

subsection \<open>Objects whose prototype has been changed\<close>

text \<open>
  The objects that \<^verbatim>\<open>ThingModel\<close> fills by assignment (\<^verbatim>\<open>o[k] = v\<close>, \<^verbatim>\<open>Object.assign\<close>)
  start as \<^verbatim>\<open>{}\<close>. An assignment to the key \<^verbatim>\<open>__proto__\<close> runs the setter of
  \<^verbatim>\<open>Object.prototype\<close>, which makes an object, an array or \<^verbatim>\<open>null\<close> the new prototype
  and ignores every other value. Such an object is a pair of its own properties and
  its prototype, \<open>None\<close> for \<^verbatim>\<open>Object.prototype\<close>. Once the prototype is \<^verbatim>\<open>null\<close>, or a
  parsed object with an own member \<^verbatim>\<open>__proto__\<close>, the setter is out of reach and the
  assignment creates an own property like any other.
\<close>

type_synonym plain_object = "jsobject \<times> jsval option"

definition is_object_or_null :: "jsval \<Rightarrow> bool" where
  "is_object_or_null v = (case v of JNull \<Rightarrow> True | JArray xs \<Rightarrow> True | JObject kvs \<Rightarrow> True | _ \<Rightarrow> False)"

definition setter_unreachable :: "jsval option \<Rightarrow> bool" where
  "setter_unreachable proto =
     (case proto of None \<Rightarrow> False | Some p \<Rightarrow> p = JNull \<or> hasOwnProperty (own_entries p) ''__proto__'')"

definition set_property :: "string \<Rightarrow> jsval \<Rightarrow> plain_object \<Rightarrow> plain_object" where
  "set_property k v obj =
     (case obj of (own, proto) \<Rightarrow>
        if k = ''__proto__'' \<and> \<not> hasOwnProperty own k \<and> \<not> setter_unreachable proto
        then (if is_object_or_null v then (own, Some v) else (own, proto))
        else (assign k v own, proto))"

definition Object_assign :: "plain_object \<Rightarrow> jsval \<Rightarrow> plain_object" where
  "Object_assign target source = fold (\<lambda>(k, v) obj. set_property k v obj) (own_entries source) target"

text \<open>
  What \<^verbatim>\<open>for (const k in o)\<close> visits, with the value \<^verbatim>\<open>o[k]\<close>: the own properties,
  then the enumerable properties of the prototype that no own property hides.
\<close>

definition for_in :: "jsobject \<Rightarrow> jsval option \<Rightarrow> (string \<times> jsval) list" where
  "for_in own proto =
     own @ filter (\<lambda>(k, v). \<not> hasOwnProperty own k) (case proto of None \<Rightarrow> [] | Some p \<Rightarrow> own_entries p)"

text \<open>
  The method call \<^verbatim>\<open>o.hasOwnProperty(k)\<close> on such an object. The method is found on
  \<^verbatim>\<open>Object.prototype\<close> unless an own property of the object or of its prototype is
  named \<^verbatim>\<open>hasOwnProperty\<close>, or the prototype is \<^verbatim>\<open>null\<close>; what is then found is
  not a function, and the call is a \<^verbatim>\<open>TypeError\<close>.
\<close>

definition inherits_hasOwnProperty :: "(string \<times> 'a) list \<Rightarrow> jsval option \<Rightarrow> bool" where
  "inherits_hasOwnProperty own proto =
     (\<not> hasOwnProperty own ''hasOwnProperty''
      \<and> (case proto of
            None \<Rightarrow> True
          | Some p \<Rightarrow> p \<noteq> JNull \<and> \<not> hasOwnProperty (own_entries p) ''hasOwnProperty''))"

definition call_hasOwnProperty :: "(string \<times> 'a) list \<Rightarrow> jsval option \<Rightarrow> string \<Rightarrow> js_error + bool" where
  "call_hasOwnProperty own proto k =
     (if inherits_hasOwnProperty own proto then Inr (hasOwnProperty own k) else Inl TypeError)"

subsection \<open>Built-in conversions\<close>

text \<open>\<^verbatim>\<open>Boolean(value)\<close>.\<close>

fun js_Boolean :: "jsval \<Rightarrow> bool" where
  "js_Boolean JUndefined = False"
| "js_Boolean JNull = False"
| "js_Boolean (JBool b) = b"
| "js_Boolean (JNumber n) = (n \<noteq> NaN \<and> n \<noteq> NegZero \<and> n \<noteq> Num 0)"
| "js_Boolean (JString s) = (s \<noteq> [])"
| "js_Boolean (JArray xs) = True"
| "js_Boolean (JObject kvs) = True"

text \<open>
  \<^verbatim>\<open>JSON.stringify(value)\<close>, given as the value that the text denotes, \<open>None\<close> when
  there is no text: \<^verbatim>\<open>undefined\<close> has none, is left out of an object and is
  \<^verbatim>\<open>null\<close> in an array; \<^verbatim>\<open>NaN\<close> and the infinities are written \<^verbatim>\<open>null\<close>, and
  \<^verbatim>\<open>-0\<close> is written \<^verbatim>\<open>0\<close>.
\<close>

fun stringify_number :: "jsnum \<Rightarrow> jsval" where
  "stringify_number (Num q) = JNumber (Num q)"
| "stringify_number NegZero = JNumber (Num 0)"
| "stringify_number NaN = JNull"
| "stringify_number PosInfinity = JNull"
| "stringify_number NegInfinity = JNull"

fun present_members :: "(string \<times> jsval option) list \<Rightarrow> jsobject" where
  "present_members [] = []"
| "present_members ((k, None) # rest) = present_members rest"
| "present_members ((k, Some j) # rest) = (k, j) # present_members rest"

fun JSON_stringify :: "jsval \<Rightarrow> jsval option" where
  "JSON_stringify JUndefined = None"
| "JSON_stringify JNull = Some JNull"
| "JSON_stringify (JBool b) = Some (JBool b)"
| "JSON_stringify (JNumber n) = Some (stringify_number n)"
| "JSON_stringify (JString s) = Some (JString s)"
| "JSON_stringify (JArray xs) =
     Some (JArray (map (\<lambda>x. case JSON_stringify x of None \<Rightarrow> JNull | Some j \<Rightarrow> j) xs))"
| "JSON_stringify (JObject kvs) =
     Some (JObject (present_members (object_literal (map (\<lambda>kv. (fst kv, JSON_stringify (snd kv))) kvs))))"

section \<open>The environment of a model\<close>

text \<open>
  What \<^verbatim>\<open>thing-model.js\<close> takes from outside the repository's model code: the
  credential \<^verbatim>\<open>API.jwt\<close>, the built-in number parsers, and the \<^verbatim>\<open>URL\<close> class
  (\<open>url_href s\<close> is \<^verbatim>\<open>new URL(s, App.ORIGIN).href\<close>, \<open>url_pathname s\<close> its
  \<^verbatim>\<open>pathname\<close>).
\<close>

record env =
  jwt :: string
  parseFloat :: "jsval \<Rightarrow> jsval"
  parseInt :: "jsval \<Rightarrow> jsval"
  url_href :: "string \<Rightarrow> string"
  url_pathname :: "string \<Rightarrow> string"

text \<open>
  The answer to a \<^verbatim>\<open>fetch\<close>: the promise rejects (\<open>NetworkError\<close>) or resolves to a
  response with \<^verbatim>\<open>ok\<close>, \<^verbatim>\<open>status\<close>, \<^verbatim>\<open>statusText\<close> and a body; \<open>json\<close> is \<open>None\<close>
  when \<^verbatim>\<open>response.json()\<close> rejects.
\<close>

datatype response =
    NetworkError
  | Response (ok: bool) (status: nat) (statusText: string) (json: "jsval option")

fun remote_status_text :: "response \<Rightarrow> string option" where
  "remote_status_text NetworkError = None"
| "remote_status_text (Response b st txt body) = Some txt"

text \<open>How a promise returned by a method settles.\<close>

datatype settled =
    Fulfilled jsval
  | RejectedWith string
  | RejectedWithError string

datatype 'a promise = Settled settled | Pending

section \<open>The state of a ThingModel\<close>

text \<open>
  Subscribers are callbacks; the model calls them and never looks inside, so a
  handler is an identifier. Everything the model does to the outside is recorded
  in order in \<open>trace\<close>: the requests it issues, with method, address and the body
  sent (\<open>None\<close> for a request without body; headers carry only the credential and
  content type and are left out), what it does with its WebSocket, and the calls of
  handlers with the content of their argument at the time of the call. A body and a
  WebSocket message are given as \<open>JSON_stringify\<close> gives them. Console output is not
  recorded. A handler is taken to return normally, without calling back into the
  model and without changing the object it is given.
\<close>

type_synonym handler = nat

datatype event_kind = EVENT_OCCURRED | PROPERTY_STATUS | OtherEvent string

datatype action =
    Fetch string "string option" "jsval option"
  | WebSocketNew string
  | WebSocketSend "jsval option"
  | WebSocketClose
  | Invoke handler jsval

text \<open>
  The descriptor of a property is an object with the members \<^verbatim>\<open>type\<close> and \<^verbatim>\<open>href\<close>.
\<close>

record property_description =
  ptype :: jsval
  phref :: string

text \<open>
  The WebSocket of a model: its address, whether the one-shot listener for \<^verbatim>\<open>open\<close> is
  still attached, and whether the listeners for \<^verbatim>\<open>message\<close>, \<^verbatim>\<open>close\<close> and \<^verbatim>\<open>error\<close>
  are (the three are attached and removed together).
\<close>

record websocket =
  ws_url :: string
  open_listener :: bool
  listening :: bool

text \<open>
  The fields of a \<^verbatim>\<open>ThingModel\<close>. \<open>propertyDescriptions\<close> and \<open>eventDescriptions\<close> hold
  the own properties of the two schema objects; \<open>eventDescriptions_proto\<close> is the
  prototype of the object \<^verbatim>\<open>this.eventDescriptions\<close>, which a description can
  change (see \<open>copy_events\<close>). The prototype of \<^verbatim>\<open>this.propertyDescriptions\<close> is
  \<^verbatim>\<open>Object.prototype\<close> or a property descriptor, and no member of a descriptor hides
  a method of \<^verbatim>\<open>Object.prototype\<close>, so it needs no field.
\<close>

record thing_model =
  name :: jsval
  type :: jsval
  properties :: jsobject
  events :: jsval
  href :: "string option"
  id :: "string option"
  eventsHref :: "string option"
  propertyDescriptions :: "(string \<times> property_description) list"
  eventDescriptions :: "(string \<times> jsval) list"
  eventDescriptions_proto :: "jsval option"
  ws :: "websocket option"
  handlers :: "(event_kind \<times> handler) list"
  trace :: "action list"

section \<open>The base class Model\<close>

text \<open>
  Modelled from the spec: the base class \<^verbatim>\<open>Model\<close> (\<^verbatim>\<open>./model\<close>) is not among the
  sources. Section 4.1 of the specification gives its contract: \<^verbatim>\<open>subscribe\<close>
  registers a handler for an event kind, the registry being a set of (kind, handler)
  pairs; \<^verbatim>\<open>handleEvent\<close> invokes every handler registered for the kind,
  synchronously, in registration order; \<^verbatim>\<open>cleanup\<close> clears all registrations.
  The constants \<^verbatim>\<open>Constants.EVENT_OCCURRED\<close> and \<^verbatim>\<open>Constants.PROPERTY_STATUS\<close> are
  the two distinct event kinds of \<open>event_kind\<close>.
\<close>

definition Model_subscribe :: "event_kind \<Rightarrow> handler \<Rightarrow> thing_model \<Rightarrow> thing_model" where
  "Model_subscribe event handler m =
     (if (event, handler) \<in> set (handlers m) then m
      else m\<lparr>handlers := handlers m @ [(event, handler)]\<rparr>)"

definition handlers_for :: "event_kind \<Rightarrow> thing_model \<Rightarrow> handler list" where
  "handlers_for event m = map snd (filter (\<lambda>(k, h). k = event) (handlers m))"

definition handleEvent :: "event_kind \<Rightarrow> jsval \<Rightarrow> thing_model \<Rightarrow> thing_model" where
  "handleEvent event payload m =
     m\<lparr>trace := trace m @ map (\<lambda>h. Invoke h payload) (handlers_for event m)\<rparr>"

definition Model_cleanup :: "thing_model \<Rightarrow> thing_model" where
  "Model_cleanup m = m\<lparr>handlers := []\<rparr>"

section \<open>The methods of ThingModel\<close>

subsection \<open>subscribe\<close>

definition subscribe :: "event_kind \<Rightarrow> handler \<Rightarrow> thing_model \<Rightarrow> thing_model" where
  "subscribe event handler m =
     (let m1 = Model_subscribe event handler m in
      case event of
        EVENT_OCCURRED \<Rightarrow> m1
      | PROPERTY_STATUS \<Rightarrow> m1\<lparr>trace := trace m1 @ [Invoke handler (JObject (properties m1))]\<rparr>
      | OtherEvent other \<Rightarrow> m1)"

subsection \<open>onPropertyStatus\<close>

text \<open>
  The loop \<^verbatim>\<open>for (const prop in data)\<close>, over what the loop visits; \<open>v\<close> is
  \<^verbatim>\<open>data[prop]\<close>. The call \<^verbatim>\<open>this.propertyDescriptions.hasOwnProperty(prop)\<close> fails
  for every key or for none, so an exception leaves the loop before the first
  assignment.
\<close>

fun onPropertyStatus_loop :: "(string \<times> jsval) list \<Rightarrow> thing_model \<Rightarrow> js_error + thing_model" where
  "onPropertyStatus_loop [] m = Inr m"
| "onPropertyStatus_loop ((prop, v) # rest) m =
     (case call_hasOwnProperty (propertyDescriptions m) None prop of
        Inl err \<Rightarrow> Inl err
      | Inr known \<Rightarrow>
          if \<not> known then onPropertyStatus_loop rest m
          else if v = JUndefined \<or> v = JNull then onPropertyStatus_loop rest m
          else onPropertyStatus_loop rest (m\<lparr>properties := assign prop v (properties m)\<rparr>))"

text \<open>\<^verbatim>\<open>onPropertyStatus\<close> for an argument of which \<^verbatim>\<open>for ... in\<close> visits \<open>visited\<close>.\<close>

definition onPropertyStatus_visiting :: "(string \<times> jsval) list \<Rightarrow> thing_model \<Rightarrow> js_error + thing_model" where
  "onPropertyStatus_visiting visited m =
     (case onPropertyStatus_loop visited m of
        Inl err \<Rightarrow> Inl err
      | Inr m1 \<Rightarrow> Inr (handleEvent PROPERTY_STATUS (JObject (properties m1)) m1))"

text \<open>\<^verbatim>\<open>onPropertyStatus(data)\<close> for a parsed value \<open>data\<close>.\<close>

definition onPropertyStatus :: "jsval \<Rightarrow> thing_model \<Rightarrow> js_error + thing_model" where
  "onPropertyStatus data m = onPropertyStatus_visiting (own_entries data) m"

subsection \<open>onEvent\<close>

text \<open>
  The loop of \<^verbatim>\<open>onEvent\<close> with the local object \<^verbatim>\<open>events\<close> as \<open>delta\<close>.
  \<^verbatim>\<open>this.events.push\<close> is a \<^verbatim>\<open>TypeError\<close> unless \<^verbatim>\<open>this.events\<close> is an array. Both
  exceptions can only be raised before the first change.
\<close>

fun onEvent_loop :: "(string \<times> jsval) list \<Rightarrow> jsobject \<Rightarrow> thing_model \<Rightarrow> js_error + jsobject \<times> thing_model" where
  "onEvent_loop [] delta m = Inr (delta, m)"
| "onEvent_loop ((event, v) # rest) delta m =
     (case call_hasOwnProperty (eventDescriptions m) (eventDescriptions_proto m) event of
        Inl err \<Rightarrow> Inl err
      | Inr known \<Rightarrow>
          if \<not> known then onEvent_loop rest delta m
          else (case events m of
                  JArray es \<Rightarrow>
                    onEvent_loop rest (assign event v delta) (m\<lparr>events := JArray (es @ [JObject [(event, v)]])\<rparr>)
                | _ \<Rightarrow> Inl TypeError))"

definition onEvent :: "jsval \<Rightarrow> thing_model \<Rightarrow> js_error + thing_model" where
  "onEvent data m =
     (case onEvent_loop (own_entries data) [] m of
        Inl err \<Rightarrow> Inl err
      | Inr (delta, m1) \<Rightarrow> Inr (handleEvent EVENT_OCCURRED (JObject delta) m1))"

subsection \<open>setProperty\<close>

text \<open>The \<^verbatim>\<open>switch\<close> on the declared type of the property.\<close>

definition coerce :: "env \<Rightarrow> jsval \<Rightarrow> jsval \<Rightarrow> jsval" where
  "coerce e declared v =
     (if declared = JString ''number'' then parseFloat e v
      else if declared = JString ''integer'' then parseInt e v
      else if declared = JString ''boolean'' then JBool (js_Boolean v)
      else v)"

text \<open>
  The synchronous part of \<^verbatim>\<open>setProperty\<close>: an exception of the call of
  \<^verbatim>\<open>hasOwnProperty\<close>, or the rejected promise for an unknown name, or the request is
  issued and the promise is pending. The body of the request is
  \<^verbatim>\<open>JSON.stringify(payload)\<close>.
\<close>

definition setProperty :: "env \<Rightarrow> string \<Rightarrow> jsval \<Rightarrow> thing_model \<Rightarrow> js_error + unit promise \<times> thing_model" where
  "setProperty e nm v m =
     (case call_hasOwnProperty (propertyDescriptions m) None nm of
        Inl err \<Rightarrow> Inl err
      | Inr known \<Rightarrow>
          (case map_of (propertyDescriptions m) nm of
             None \<Rightarrow> Inr (Settled (RejectedWith (''Unavailable property name '' @ nm)), m)
           | Some property \<Rightarrow>
               (let v' = coerce e (ptype property) v;
                    payload = JObject [(nm, v')]
                in Inr (Pending,
                        m\<lparr>trace := trace m @ [Fetch ''PUT'' (Some (phref property)) (JSON_stringify payload)]\<rparr>))))"

text \<open>
  The rest of \<^verbatim>\<open>setProperty\<close>, run when the request has been answered. An exception
  of \<^verbatim>\<open>onPropertyStatus\<close> is caught like a failed request.
\<close>

definition setProperty_settled :: "string \<Rightarrow> response \<Rightarrow> thing_model \<Rightarrow> settled \<times> thing_model" where
  "setProperty_settled nm r m =
     (case r of
        NetworkError \<Rightarrow> (RejectedWithError (''Error trying to set '' @ nm), m)
      | Response b st txt body \<Rightarrow>
          if b then
            (case body of
               None \<Rightarrow> (RejectedWithError (''Error trying to set '' @ nm), m)
             | Some j \<Rightarrow>
                 (case onPropertyStatus j m of
                    Inl err \<Rightarrow> (RejectedWithError (''Error trying to set '' @ nm), m)
                  | Inr m1 \<Rightarrow> (Fulfilled JUndefined, m1)))
          else (RejectedWithError (''Error trying to set '' @ nm), m))"

subsection \<open>updateProperties\<close>

definition updateProperties :: "thing_model \<Rightarrow> thing_model" where
  "updateProperties m =
     m\<lparr>trace := trace m @ map (\<lambda>(n, property). Fetch ''GET'' (Some (phref property)) None) (propertyDescriptions m)\<rparr>"

text \<open>
  Both \<^verbatim>\<open>Promise.all\<close> of \<^verbatim>\<open>updateProperties\<close>: the bodies of all responses, or
  nothing when one request or one \<^verbatim>\<open>response.json()\<close> fails.
\<close>

fun response_bodies :: "response list \<Rightarrow> jsval list option" where
  "response_bodies [] = Some []"
| "response_bodies (NetworkError # rs) = None"
| "response_bodies (Response b st txt None # rs) = None"
| "response_bodies (Response b st txt (Some j) # rs) = map_option ((#) j) (response_bodies rs)"

text \<open>
  The responses are merged into one object with \<^verbatim>\<open>Object.assign\<close>, and the merged
  object is reconciled. An exception there is caught and logged.
\<close>

definition updateProperties_settled :: "response list \<Rightarrow> thing_model \<Rightarrow> thing_model" where
  "updateProperties_settled rs m =
     (case response_bodies rs of
        None \<Rightarrow> m
      | Some responses \<Rightarrow>
          (case fold (\<lambda>response props. Object_assign props response) responses ([], None) of
             (own, proto) \<Rightarrow>
               (case onPropertyStatus_visiting (for_in own proto) m of
                  Inl err \<Rightarrow> m
                | Inr m1 \<Rightarrow> m1)))"

subsection \<open>updateEvents\<close>

definition updateEvents :: "thing_model \<Rightarrow> thing_model" where
  "updateEvents m =
     (case eventsHref m of
        None \<Rightarrow> m
      | Some u \<Rightarrow> m\<lparr>trace := trace m @ [Fetch ''GET'' (Some u) None]\<rparr>)"

definition updateEvents_settled :: "response \<Rightarrow> thing_model \<Rightarrow> thing_model" where
  "updateEvents_settled r m =
     (case r of
        NetworkError \<Rightarrow> m
      | Response b st txt body \<Rightarrow>
          (case body of None \<Rightarrow> m | Some evs \<Rightarrow> m\<lparr>events := evs\<rparr>))"

subsection \<open>The WebSocket\<close>

text \<open>\<^verbatim>\<open>s.replace(/^http/, 'ws')\<close>.\<close>

definition replace_http :: "string \<Rightarrow> string" where
  "replace_http s = (if take 4 s = ''http'' then ''ws'' @ drop 4 s else s)"

definition initWebsocket :: "env \<Rightarrow> thing_model \<Rightarrow> thing_model" where
  "initWebsocket e m =
     (case href m of
        None \<Rightarrow> m
      | Some h \<Rightarrow>
          (let url = replace_http h @ ''?jwt='' @ jwt e
           in m\<lparr>ws := Some \<lparr>ws_url = url, open_listener = True, listening = True\<rparr>,
                 trace := trace m @ [WebSocketNew url]\<rparr>))"

text \<open>
  The listener for \<^verbatim>\<open>open\<close>, attached with \<^verbatim>\<open>once: true\<close>. \<^verbatim>\<open>msg.data\<close> is filled by
  assignment for every name that \<^verbatim>\<open>for ... in\<close> visits in the event schema; the
  message sent holds its own properties.
\<close>

definition ws_open :: "thing_model \<Rightarrow> thing_model" where
  "ws_open m =
     (case ws m of
        None \<Rightarrow> m
      | Some w \<Rightarrow>
          if \<not> open_listener w then m
          else
            (let m1 = m\<lparr>ws := Some (w\<lparr>open_listener := False\<rparr>)\<rparr> in
             if eventDescriptions m = [] then m1
             else
               (let data = fold (\<lambda>(n, d) obj. set_property n (JObject []) obj)
                             (for_in (eventDescriptions m) (eventDescriptions_proto m)) ([], None);
                    msg = JObject [(''messageType'', JString ''addEventSubscription''),
                                   (''data'', JObject (fst data))]
                in m1\<lparr>trace := trace m1 @ [WebSocketSend (JSON_stringify msg)]\<rparr>)))"

text \<open>
  The listener for \<^verbatim>\<open>message\<close>. Its argument is what \<^verbatim>\<open>JSON.parse(event.data)\<close>
  gives, \<open>None\<close> when the text is not JSON. An exception leaves the listener; the
  caller keeps the model as it was.
\<close>

definition ws_message :: "jsval option \<Rightarrow> thing_model \<Rightarrow> js_error + thing_model" where
  "ws_message parsed m =
     (case ws m of
        None \<Rightarrow> Inr m
      | Some w \<Rightarrow>
          if \<not> listening w then Inr m
          else
            (case parsed of
               None \<Rightarrow> Inl SyntaxError
             | Some message \<Rightarrow>
                 (case get_field message ''messageType'' of
                    Inl err \<Rightarrow> Inl err
                  | Inr messageType \<Rightarrow>
                      if messageType = JString ''propertyStatus'' then
                        (case get_field message ''data'' of
                           Inl err \<Rightarrow> Inl err
                         | Inr d \<Rightarrow> onPropertyStatus d m)
                      else if messageType = JString ''event'' then
                        (case get_field message ''data'' of
                           Inl err \<Rightarrow> Inl err
                         | Inr d \<Rightarrow> onEvent d m)
                      else Inr m)))"

text \<open>The listener \<^verbatim>\<open>cleanup\<close> of \<^verbatim>\<open>initWebsocket\<close>, for \<^verbatim>\<open>close\<close> and \<^verbatim>\<open>error\<close>.\<close>

definition ws_closed :: "thing_model \<Rightarrow> thing_model" where
  "ws_closed m =
     (case ws m of
        None \<Rightarrow> m
      | Some w \<Rightarrow> if \<not> listening w then m else m\<lparr>ws := Some (w\<lparr>listening := False\<rparr>)\<rparr>)"

subsection \<open>cleanup, removeThing, updateThing\<close>

text \<open>\<^verbatim>\<open>this.ws.close()\<close> is a \<^verbatim>\<open>TypeError\<close> when the model has no WebSocket.\<close>

definition cleanup :: "thing_model \<Rightarrow> js_error + thing_model" where
  "cleanup m =
     (case ws m of
        None \<Rightarrow> Inl TypeError
      | Some w \<Rightarrow> Inr (Model_cleanup (m\<lparr>trace := trace m @ [WebSocketClose]\<rparr>)))"

definition removeThing :: "thing_model \<Rightarrow> unit promise \<times> thing_model" where
  "removeThing m = (Pending, m\<lparr>trace := trace m @ [Fetch ''DELETE'' (href m) None]\<rparr>)"

definition removeThing_settled :: "response \<Rightarrow> thing_model \<Rightarrow> settled \<times> thing_model" where
  "removeThing_settled r m =
     (case r of
        NetworkError \<Rightarrow> (RejectedWith ''Error occurred while removing thing'', m)
      | Response b st txt body \<Rightarrow>
          if b then
            (case cleanup m of
               Inl err \<Rightarrow> (RejectedWith ''Error occurred while removing thing'', m)
             | Inr m1 \<Rightarrow> (Fulfilled JUndefined, m1))
          else (RejectedWith (''Failed removing thing '' @ txt), m))"

definition updateThing :: "jsval \<Rightarrow> thing_model \<Rightarrow> unit promise \<times> thing_model" where
  "updateThing updates m =
     (Pending, m\<lparr>trace := trace m @ [Fetch ''PUT'' (href m) (JSON_stringify updates)]\<rparr>)"

definition updateThing_settled :: "response \<Rightarrow> thing_model \<Rightarrow> settled \<times> thing_model" where
  "updateThing_settled r m =
     (case r of
        NetworkError \<Rightarrow> (RejectedWith ''Error occurred while updating thing'', m)
      | Response b st txt body \<Rightarrow>
          if b then (Fulfilled JUndefined, m)
          else (RejectedWith (''Failed updating thing '' @ txt), m))"

subsection \<open>The constructor\<close>

record link =
  rel :: string
  link_href :: string

text \<open>
  The description of a thing, as parsed. \<open>d_href\<close>, \<open>d_properties\<close> and \<open>d_events\<close> are
  \<open>None\<close> when the description has no such member; the members of \<^verbatim>\<open>properties\<close> and
  \<^verbatim>\<open>events\<close> are listed in the order of the text.
\<close>

record description =
  d_name :: jsval
  d_type :: jsval
  d_href :: "string option"
  d_links :: "link list"
  d_properties :: "(string \<times> property_description) list option"
  d_events :: "(string \<times> jsval) list option"

text \<open>\<^verbatim>\<open>s.split('/')\<close>; \<^verbatim>\<open>pop()\<close> takes the last piece.\<close>

fun split_slash :: "string \<Rightarrow> string list" where
  "split_slash [] = [[]]"
| "split_slash (c # cs) =
     (if c = CHR ''/'' then [] # split_slash cs
      else case split_slash cs of
             [] \<Rightarrow> [[c]]
           | piece # pieces \<Rightarrow> (c # piece) # pieces)"

text \<open>\<^verbatim>\<open>if (description.href)\<close>: the member is there and not the empty string.\<close>

definition has_href :: "description \<Rightarrow> bool" where
  "has_href d = (case d_href d of None \<Rightarrow> False | Some h \<Rightarrow> h \<noteq> [])"

text \<open>
  The loop that copies \<^verbatim>\<open>description.properties\<close> into \<^verbatim>\<open>this.propertyDescriptions\<close> by
  assignment. A descriptor is an object, so the assignment to \<^verbatim>\<open>__proto__\<close> makes it
  the prototype and creates no own property.
\<close>

definition copy_properties ::
  "(string \<times> property_description) list option \<Rightarrow> (string \<times> property_description) list" where
  "copy_properties src =
     (case src of
        None \<Rightarrow> []
      | Some ds \<Rightarrow>
          fold (\<lambda>(n, descr) obj. if n = ''__proto__'' then obj else assign n descr obj) (object_literal ds) [])"

text \<open>The same loop for \<^verbatim>\<open>description.events\<close>, whose members are any values.\<close>

definition copy_events :: "(string \<times> jsval) list option \<Rightarrow> plain_object" where
  "copy_events src =
     (case src of
        None \<Rightarrow> ([], None)
      | Some ds \<Rightarrow> fold (\<lambda>(n, descr) obj. set_property n descr obj) (object_literal ds) ([], None))"

definition constructor :: "env \<Rightarrow> description \<Rightarrow> thing_model" where
  "constructor e d =
     (let m0 =
        \<lparr>name = d_name d,
         type = d_type d,
         properties = [],
         events = JArray [],
         href = (if has_href d then map_option (url_href e) (d_href d) else None),
         id = (if has_href d
               then map_option (\<lambda>h. last (split_slash (url_pathname e h))) (d_href d)
               else None),
         eventsHref = map_option (\<lambda>l. url_href e (link_href l)) (find (\<lambda>l. rel l = ''events'') (d_links d)),
         propertyDescriptions = copy_properties (d_properties d),
         eventDescriptions = fst (copy_events (d_events d)),
         eventDescriptions_proto = snd (copy_events (d_events d)),
         ws = None,
         handlers = [],
         trace = []\<rparr>
      in updateProperties (updateEvents (initWebsocket e m0)))"

section \<open>Runs of a model\<close>

text \<open>
  What can happen to a model after its construction: a caller invokes a method, a
  request is answered, the WebSocket delivers an event. An operation that ends in
  an exception leaves the model as the statements before the exception made it;
  in each such case of \<^verbatim>\<open>ThingModel\<close> that is the model before the operation.
  The answer to a request is accepted at any time, whether or not the request was
  issued before, so the runs of a real model are among the runs described here.
\<close>

datatype operation =
    RemoveThing
  | RemoveThing_settled response
  | UpdateThing jsval
  | UpdateThing_settled response
  | Cleanup
  | Subscribe event_kind handler
  | SetProperty string jsval
  | SetProperty_settled string response
  | UpdateProperties
  | UpdateProperties_settled "response list"
  | OnPropertyStatus jsval
  | UpdateEvents
  | UpdateEvents_settled response
  | OnEvent jsval
  | WsOpen
  | WsMessage "jsval option"
  | WsClose
  | WsError

fun step :: "env \<Rightarrow> operation \<Rightarrow> thing_model \<Rightarrow> thing_model" where
  "step e RemoveThing m = snd (removeThing m)"
| "step e (RemoveThing_settled r) m = snd (removeThing_settled r m)"
| "step e (UpdateThing updates) m = snd (updateThing updates m)"
| "step e (UpdateThing_settled r) m = snd (updateThing_settled r m)"
| "step e Cleanup m = (case cleanup m of Inl err \<Rightarrow> m | Inr m1 \<Rightarrow> m1)"
| "step e (Subscribe event handler) m = subscribe event handler m"
| "step e (SetProperty nm v) m = (case setProperty e nm v m of Inl err \<Rightarrow> m | Inr (p, m1) \<Rightarrow> m1)"
| "step e (SetProperty_settled nm r) m = snd (setProperty_settled nm r m)"
| "step e UpdateProperties m = updateProperties m"
| "step e (UpdateProperties_settled rs) m = updateProperties_settled rs m"
| "step e (OnPropertyStatus data) m = (case onPropertyStatus data m of Inl err \<Rightarrow> m | Inr m1 \<Rightarrow> m1)"
| "step e UpdateEvents m = updateEvents m"
| "step e (UpdateEvents_settled r) m = updateEvents_settled r m"
| "step e (OnEvent data) m = (case onEvent data m of Inl err \<Rightarrow> m | Inr m1 \<Rightarrow> m1)"
| "step e WsOpen m = ws_open m"
| "step e (WsMessage parsed) m = (case ws_message parsed m of Inl err \<Rightarrow> m | Inr m1 \<Rightarrow> m1)"
| "step e WsClose m = ws_closed m"
| "step e WsError m = ws_closed m"

inductive reachable :: "env \<Rightarrow> description \<Rightarrow> thing_model \<Rightarrow> bool" for e d where
  constructed: "reachable e d (constructor e d)"
| stepped: "reachable e d m \<Longrightarrow> reachable e d (step e operation m)"

text \<open>The operations that tear a model down: \<^verbatim>\<open>cleanup\<close>, called by the owner or by
  \<^verbatim>\<open>removeThing\<close> after a successful answer.\<close>

fun tears_down :: "operation \<Rightarrow> bool" where
  "tears_down Cleanup = True"
| "tears_down (RemoveThing_settled (Response b st txt body)) = b"
| "tears_down operation = False"

subsection \<open>Sample things\<close>

text \<open>
  A lamp with a numeric property \<^verbatim>\<open>level\<close>, a boolean property \<^verbatim>\<open>on\<close>, a property
  \<^verbatim>\<open>mode\<close> of type string and an event \<^verbatim>\<open>overheated\<close>; the same description without
  an address; and the same description with one more property, which is named
  \<^verbatim>\<open>hasOwnProperty\<close>. \<open>sample_env\<close> knows the values of the parsers on the one string
  the examples send.
\<close>

definition sample_env :: env where
  "sample_env =
     \<lparr>jwt = ''token'',
      parseFloat = (\<lambda>v. if v = JString ''3.5'' then JNumber (Num (7 / 2)) else JNumber NaN),
      parseInt = (\<lambda>v. if v = JString ''3.5'' then JNumber (Num 3) else JNumber NaN),
      url_href = (\<lambda>s. ''http://gateway.local'' @ s),
      url_pathname = (\<lambda>s. s)\<rparr>"

definition lamp_properties :: "(string \<times> property_description) list" where
  "lamp_properties =
     [(''level'', \<lparr>ptype = JString ''number'', phref = ''/things/lamp/properties/level''\<rparr>),
      (''on'', \<lparr>ptype = JString ''boolean'', phref = ''/things/lamp/properties/on''\<rparr>),
      (''mode'', \<lparr>ptype = JString ''string'', phref = ''/things/lamp/properties/mode''\<rparr>)]"

definition lamp_description :: description where
  "lamp_description =
     \<lparr>d_name = JString ''Lamp'',
      d_type = JString ''dimmableLight'',
      d_href = Some ''/things/lamp'',
      d_links = [\<lparr>rel = ''properties'', link_href = ''/things/lamp/properties''\<rparr>,
                 \<lparr>rel = ''events'', link_href = ''/things/lamp/events''\<rparr>],
      d_properties = Some lamp_properties,
      d_events = Some [(''overheated'', JObject [])]\<rparr>"

definition detached_description :: description where
  "detached_description = lamp_description\<lparr>d_href := None\<rparr>"

definition shadowed_description :: description where
  "shadowed_description =
     lamp_description
       \<lparr>d_properties :=
          Some (lamp_properties
                @ [(''hasOwnProperty'', \<lparr>ptype = JString ''boolean'', phref = ''/things/lamp/properties/hasOwnProperty''\<rparr>)])\<rparr>"

definition lamp :: thing_model where
  "lamp = constructor sample_env lamp_description"

definition shadowed_lamp :: thing_model where
  "shadowed_lamp = constructor sample_env shadowed_description"

subsection \<open>Notions used in the proofs\<close>

text \<open>
  Keys in an order in which an object can enumerate them: \<open>key_order k k'\<close> holds
  when \<open>k\<close> can come before \<open>k'\<close>.
\<close>

definition key_order :: "string \<Rightarrow> string \<Rightarrow> bool" where
  "key_order k k' =
     (if is_index k then (if is_index k' then index_of_key k < index_of_key k' else True)
      else \<not> is_index k')"

definition enumerable :: "(string \<times> 'a) list \<Rightarrow> bool" where
  "enumerable obj = (distinct (map fst obj) \<and> sorted_wrt key_order (map fst obj))"

text \<open>
  The loop of \<^verbatim>\<open>onPropertyStatus\<close> when the call of \<^verbatim>\<open>hasOwnProperty\<close> succeeds, and its
  test: the entry is folded into the cache.
\<close>

definition informative :: "thing_model \<Rightarrow> string \<Rightarrow> jsval \<Rightarrow> bool" where
  "informative m key v = (hasOwnProperty (propertyDescriptions m) key \<and> v \<noteq> JUndefined \<and> v \<noteq> JNull)"

fun fold_status :: "(string \<times> jsval) list \<Rightarrow> thing_model \<Rightarrow> thing_model" where
  "fold_status [] m = m"
| "fold_status ((prop, v) # rest) m =
     (if informative m prop v then fold_status rest (m\<lparr>properties := assign prop v (properties m)\<rparr>)
      else fold_status rest m)"

text \<open>
  The part of an incoming event payload that \<^verbatim>\<open>onEvent\<close> keeps: the entries whose key
  is in the event schema, in the order of the payload.
\<close>

definition known_events :: "thing_model \<Rightarrow> (string \<times> jsval) list \<Rightarrow> (string \<times> jsval) list" where
  "known_events m es = filter (\<lambda>(k, v). hasOwnProperty (eventDescriptions m) k) es"

text \<open>The two invariants of section 3 of the specification.\<close>

definition properties_within_schema :: "thing_model \<Rightarrow> bool" where
  "properties_within_schema m = list_all (\<lambda>(k, v). hasOwnProperty (propertyDescriptions m) k) (properties m)"

definition entry_within_schema :: "thing_model \<Rightarrow> jsval \<Rightarrow> bool" where
  "entry_within_schema m entry = list_all (\<lambda>(k, v). hasOwnProperty (eventDescriptions m) k) (own_entries entry)"

definition events_within_schema :: "thing_model \<Rightarrow> bool" where
  "events_within_schema m = (case events m of JArray es \<Rightarrow> list_all (entry_within_schema m) es | _ \<Rightarrow> False)"

text \<open>The addresses of the WebSockets opened in a trace, and the number of \<^verbatim>\<open>close()\<close> calls.\<close>

fun opened :: "action list \<Rightarrow> string list" where
  "opened [] = []"
| "opened (WebSocketNew url # acts) = url # opened acts"
| "opened (act # acts) = opened acts"

fun closes :: "action list \<Rightarrow> nat" where
  "closes [] = 0"
| "closes (WebSocketClose # acts) = Suc (closes acts)"
| "closes (act # acts) = closes acts"

text \<open>What no operation changes: the schemas, the address of the WebSocket, the WebSockets opened.\<close>

definition same_setup :: "thing_model \<Rightarrow> thing_model \<Rightarrow> bool" where
  "same_setup m m' =
     (propertyDescriptions m' = propertyDescriptions m
      \<and> eventDescriptions m' = eventDescriptions m
      \<and> eventDescriptions_proto m' = eventDescriptions_proto m
      \<and> map_option ws_url (ws m') = map_option ws_url (ws m)
      \<and> opened (trace m') = opened (trace m))"

section \<open>Properties of objects\<close>

subsection \<open>Index keys\<close>

lemma digit_value_digit_char: "d < 10 \<Longrightarrow> digit_value (digit_char d) = d"
  by (simp add: digit_value_def digit_char_def)

lemma index_of_key_index_key: "index_of_key (index_key n) = n"
proof (induction n rule: index_key.induct)
  case (1 n)
  show ?case
  proof (cases "n < 10")
    case True
    then show ?thesis
      by (subst index_key.simps) (simp add: index_of_key_def digit_value_digit_char)
  next
    case False
    with 1 have "index_of_key (index_key (n div 10)) = n div 10" by simp
    with False show ?thesis
      by (subst index_key.simps) (simp add: index_of_key_def digit_value_digit_char)
  qed
qed

lemma inj_index_key: "inj index_key"
  by (rule inj_on_inverseI [where g = index_of_key]) (rule index_of_key_index_key)

lemma distinct_index_keys: "distinct (map index_key [0..<n])"
  by (simp add: distinct_map inj_index_key inj_on_subset [OF inj_index_key])

lemma is_index_index_key: "is_index (index_key n) = (n < 4294967295)"
  by (simp add: is_index_def index_of_key_index_key)

lemma is_index_unique:
  "is_index k \<Longrightarrow> is_index k' \<Longrightarrow> index_of_key k = index_of_key k' \<Longrightarrow> k = k'"
  by (metis is_index_def)

lemma enumerated_before_key_order: "enumerated_before k k' \<Longrightarrow> key_order k k'"
  by (simp add: enumerated_before_def key_order_def)

lemma enumerated_before_trans:
  "enumerated_before k k' \<Longrightarrow> key_order k' x \<Longrightarrow> key_order k x"
  by (auto simp: enumerated_before_def key_order_def split: if_splits)

lemma not_enumerated_before:
  "\<not> enumerated_before k k' \<Longrightarrow> k \<noteq> k' \<Longrightarrow> key_order k' k"
proof -
  assume nb: "\<not> enumerated_before k k'" and ne: "k \<noteq> k'"
  show ?thesis
  proof (cases "is_index k")
    case False
    then show ?thesis by (simp add: key_order_def)
  next
    case True
    with nb have k': "is_index k'" and le: "index_of_key k' \<le> index_of_key k"
      by (auto simp: enumerated_before_def split: if_splits)
    from True k' ne have "index_of_key k \<noteq> index_of_key k'"
      by (blast dest: is_index_unique)
    with le have "index_of_key k' < index_of_key k" by simp
    with k' show ?thesis by (simp add: key_order_def)
  qed
qed

lemma key_order_not_before:
  "key_order k' k \<Longrightarrow> \<not> enumerated_before k k'"
  by (auto simp: enumerated_before_def key_order_def split: if_splits)

lemma sorted_index_keys: "sorted_wrt key_order (map index_key [0..<n])"
proof -
  have "sorted_wrt (\<lambda>i j. key_order (index_key i) (index_key j)) [0..<n]"
    by (rule sorted_wrt_mono_rel [OF _ sorted_wrt_upt])
       (auto simp: key_order_def is_index_index_key index_of_key_index_key)
  then show ?thesis by (simp add: sorted_wrt_map)
qed

subsection \<open>Assignment\<close>

lemma set_insert_property: "set (insert_property k v obj) = insert (k, v) (set obj)"
proof (induction obj)
  case Nil
  show ?case by simp
next
  case (Cons kv rest)
  obtain k' v' where "kv = (k', v')" by (cases kv)
  with Cons.IH show ?case
    by (cases "enumerated_before k k'") (simp_all add: insert_commute)
qed

lemma map_of_insert_property:
  "map_of obj k = None \<Longrightarrow> map_of (insert_property k v obj) = (map_of obj)(k \<mapsto> v)"
proof (induction obj)
  case Nil
  show ?case by simp
next
  case (Cons kv rest)
  obtain k' v' where kv: "kv = (k', v')" by (cases kv)
  from Cons.prems kv have ne: "k \<noteq> k'" and rest: "map_of rest k = None"
    by (auto split: if_splits)
  from Cons.IH [OF rest] kv ne show ?case
    by (cases "enumerated_before k k'") (auto simp: fun_eq_iff)
qed

lemma distinct_insert_property:
  "distinct (map fst obj) \<Longrightarrow> k \<notin> fst ` set obj \<Longrightarrow> distinct (map fst (insert_property k v obj))"
  by (induction obj) (auto simp: set_insert_property)

lemma sorted_insert_property:
  "sorted_wrt key_order (map fst obj) \<Longrightarrow> k \<notin> fst ` set obj \<Longrightarrow>
     sorted_wrt key_order (map fst (insert_property k v obj))"
proof (induction obj)
  case Nil
  show ?case by simp
next
  case (Cons kv rest)
  obtain k' v' where kv: "kv = (k', v')" by (cases kv)
  from Cons.prems kv have sorted_rest: "sorted_wrt key_order (map fst rest)"
    and after: "\<forall>x \<in> fst ` set rest. key_order k' x" and ne: "k \<noteq> k'" and fresh: "k \<notin> fst ` set rest"
    by auto
  show ?case
  proof (cases "enumerated_before k k'")
    case True
    from True after have "\<forall>x \<in> fst ` set rest. key_order k x"
      by (blast intro: enumerated_before_trans)
    with True Cons.prems kv show ?thesis
      by (simp add: enumerated_before_key_order)
  next
    case False
    from False ne have "key_order k' k" by (rule not_enumerated_before)
    with after have "\<forall>x \<in> fst ` set (insert_property k v rest). key_order k' x"
      by (auto simp: set_insert_property)
    with False kv Cons.IH [OF sorted_rest fresh] show ?thesis by simp
  qed
qed

lemma insert_property_last:
  "\<forall>k' \<in> fst ` set obj. \<not> enumerated_before k k' \<Longrightarrow> insert_property k v obj = obj @ [(k, v)]"
  by (induction obj) auto

lemma keys_assign: "fst ` set (assign k v obj) = insert k (fst ` set obj)"
  by (auto simp: assign_def dom_update set_insert_property)

lemma set_assign: "set (assign k v obj) \<subseteq> insert (k, v) (set obj)"
proof (cases "hasOwnProperty obj k")
  case True
  have "set (AList.update k v obj) \<subseteq> insert (k, v) (set obj)"
    by (induction obj) auto
  with True show ?thesis by (simp add: assign_def)
next
  case False
  then show ?thesis by (simp add: assign_def set_insert_property)
qed

lemma map_of_assign: "map_of (assign k v obj) = (map_of obj)(k \<mapsto> v)"
  by (simp add: assign_def update_conv' map_of_insert_property hasOwnProperty_def)

lemma assign_same: "map_of obj k = Some v \<Longrightarrow> assign k v obj = obj"
  by (simp add: assign_def update_triv hasOwnProperty_def)

lemma hasOwnProperty_keys: "hasOwnProperty obj k = (k \<in> fst ` set obj)"
  by (simp add: hasOwnProperty_def map_of_eq_None_iff)

lemma enumerable_Nil [simp]: "enumerable []"
  by (simp add: enumerable_def)

lemma enumerable_assign: "enumerable obj \<Longrightarrow> enumerable (assign k v obj)"
proof (cases "hasOwnProperty obj k")
  case True
  assume "enumerable obj"
  moreover from True have "map fst (AList.update k v obj) = map fst obj"
    by (simp add: update_keys hasOwnProperty_keys)
  ultimately show ?thesis using True by (simp add: assign_def enumerable_def)
next
  case False
  assume "enumerable obj"
  with False show ?thesis
    by (simp add: assign_def enumerable_def hasOwnProperty_keys
        distinct_insert_property sorted_insert_property)
qed

lemma enumerable_distinct: "enumerable obj \<Longrightarrow> distinct (map fst obj)"
  by (simp add: enumerable_def)

lemma enumerable_filter: "enumerable obj \<Longrightarrow> enumerable (filter P obj)"
  by (simp add: enumerable_def distinct_map_filter sorted_wrt_map sorted_wrt_filter)

lemma assign_last:
  assumes "enumerable (obj @ [(k, v)])"
  shows "assign k v obj = obj @ [(k, v)]"
proof -
  from assms have fresh: "k \<notin> fst ` set obj"
    and before: "\<forall>k' \<in> fst ` set obj. key_order k' k"
    by (auto simp: enumerable_def sorted_wrt_append)
  from before have "\<forall>k' \<in> fst ` set obj. \<not> enumerated_before k k'"
    by (blast dest: key_order_not_before)
  with fresh show ?thesis
    by (simp add: assign_def hasOwnProperty_keys insert_property_last)
qed

lemma fold_assign_enumerable:
  "enumerable (obj @ kvs) \<Longrightarrow> fold (\<lambda>(k, v) obj. assign k v obj) kvs obj = obj @ kvs"
proof (induction kvs arbitrary: obj)
  case Nil
  show ?case by simp
next
  case (Cons kv kvs)
  obtain k v where kv: "kv = (k, v)" by (cases kv)
  from Cons.prems kv have all: "enumerable ((obj @ [(k, v)]) @ kvs)" by simp
  then have "enumerable (obj @ [(k, v)])"
    by (simp add: enumerable_def sorted_wrt_append)
  then have "assign k v obj = obj @ [(k, v)]" by (rule assign_last)
  with Cons.IH [OF all] kv show ?case by simp
qed

lemma enumerable_fold_assign:
  "enumerable obj \<Longrightarrow> enumerable (fold (\<lambda>(k, v) obj. assign k v obj) kvs obj)"
  by (induction kvs arbitrary: obj) (auto simp: enumerable_assign)

lemma enumerable_object_literal: "enumerable (object_literal kvs)"
  by (simp add: object_literal_def enumerable_fold_assign)

lemma object_literal_enumerable: "enumerable kvs \<Longrightarrow> object_literal kvs = kvs"
  using fold_assign_enumerable [of "[]" kvs] by (simp add: object_literal_def)

lemma enumerable_own_entries: "enumerable (own_entries data)"
proof (cases data)
  case (JObject kvs)
  then show ?thesis by (simp add: enumerable_object_literal)
next
  case (JArray xs)
  then show ?thesis by (simp add: enumerable_def distinct_index_keys sorted_index_keys)
next
  case (JString s)
  then show ?thesis by (simp add: enumerable_def distinct_index_keys sorted_index_keys)
qed simp_all

lemma distinct_own_entries: "distinct (map fst (own_entries data))"
  using enumerable_own_entries by (rule enumerable_distinct)

lemma distinct_for_in:
  "distinct (map fst own) \<Longrightarrow> distinct (map fst (for_in own proto))"
proof -
  assume own: "distinct (map fst own)"
  let ?inh = "filter (\<lambda>(k, v). \<not> hasOwnProperty own k) (case proto of None \<Rightarrow> [] | Some p \<Rightarrow> own_entries p)"
  have "distinct (map fst ?inh)"
    by (rule distinct_map_filter) (auto simp: distinct_own_entries split: option.splits)
  moreover have "fst ` set own \<inter> fst ` set ?inh = {}"
    by (force simp: hasOwnProperty_keys)
  ultimately show ?thesis using own by (simp add: for_in_def)
qed

section \<open>Properties of the methods\<close>

subsection \<open>Reconciliation\<close>

lemma fold_status_frame:
  "fold_status es m = m\<lparr>properties := properties (fold_status es m)\<rparr>"
  by (induction es m rule: fold_status.induct) (simp_all add: informative_def)

lemma fold_status_schema [simp]:
  "propertyDescriptions (fold_status es m) = propertyDescriptions m"
  by (subst fold_status_frame) simp

lemma fold_status_handlers [simp]: "handlers (fold_status es m) = handlers m"
  by (subst fold_status_frame) simp

lemma fold_status_trace [simp]: "trace (fold_status es m) = trace m"
  by (subst fold_status_frame) simp

lemma onPropertyStatus_loop_fold:
  "onPropertyStatus_loop es m =
     (if es = [] \<or> inherits_hasOwnProperty (propertyDescriptions m) None
      then Inr (fold_status es m) else Inl TypeError)"
proof (induction es arbitrary: m)
  case Nil
  show ?case by simp
next
  case (Cons kv rest)
  obtain k v where kv: "kv = (k, v)" by (cases kv)
  show ?case
  proof (cases "inherits_hasOwnProperty (propertyDescriptions m) None")
    case False
    with kv show ?thesis by (simp add: call_hasOwnProperty_def)
  next
    case True
    with kv Cons.IH [of m] Cons.IH [of "m\<lparr>properties := assign k v (properties m)\<rparr>"]
    show ?thesis
      by (simp add: call_hasOwnProperty_def informative_def)
  qed
qed

lemma onPropertyStatus_visiting_fold:
  "onPropertyStatus_visiting es m =
     (if es = [] \<or> inherits_hasOwnProperty (propertyDescriptions m) None
      then Inr (m\<lparr>properties := properties (fold_status es m),
                  trace := trace m @ map (\<lambda>h. Invoke h (JObject (properties (fold_status es m))))
                                         (handlers_for PROPERTY_STATUS m)\<rparr>)
      else Inl TypeError)"
proof -
  define P where "P = properties (fold_status es m)"
  have frame: "fold_status es m = m\<lparr>properties := P\<rparr>"
    unfolding P_def by (rule fold_status_frame)
  have "handleEvent PROPERTY_STATUS (JObject P) (fold_status es m)
          = m\<lparr>properties := P,
              trace := trace m @ map (\<lambda>h. Invoke h (JObject P)) (handlers_for PROPERTY_STATUS m)\<rparr>"
    unfolding frame by (simp add: handleEvent_def handlers_for_def)
  then show ?thesis
    unfolding P_def by (simp add: onPropertyStatus_visiting_def onPropertyStatus_loop_fold)
qed

lemma fold_status_lookup:
  "distinct (map fst es) \<Longrightarrow>
   map_of (properties (fold_status es m)) key =
     (case map_of es key of
        None \<Rightarrow> map_of (properties m) key
      | Some v \<Rightarrow> if informative m key v then Some v else map_of (properties m) key)"
proof (induction es m rule: fold_status.induct)
  case (1 m)
  show ?case by simp
next
  case (2 k v rest m)
  from "2.prems" have d: "distinct (map fst rest)" and fresh: "map_of rest k = None"
    by (auto simp: map_of_eq_None_iff)
  show ?case
  proof (cases "informative m k v")
    case True
    then show ?thesis
      using "2.IH"(1) d fresh
      by (auto simp: informative_def map_of_assign split: option.splits)
  next
    case False
    then show ?thesis
      using "2.IH"(2) d fresh
      by (auto simp: informative_def split: option.splits)
  qed
qed

lemma fold_status_absorbed:
  "\<forall>(k, v) \<in> set es. informative m k v \<longrightarrow> map_of (properties m) k = Some v \<Longrightarrow>
     fold_status es m = m"
proof (induction es m rule: fold_status.induct)
  case (1 m)
  show ?case by simp
next
  case (2 k v rest m)
  show ?case
  proof (cases "informative m k v")
    case True
    with "2.prems" have "map_of (properties m) k = Some v" by simp
    then have same: "m\<lparr>properties := assign k v (properties m)\<rparr> = m"
      by (simp add: assign_same)
    from True "2.IH"(1) "2.prems" same show ?thesis by simp
  next
    case False
    with "2.IH"(2) "2.prems" show ?thesis by auto
  qed
qed

text \<open>
  Where the property schema has no entry named \<^verbatim>\<open>hasOwnProperty\<close>, reconciliation does
  what section 4.2 of the specification says: key by key the cache takes the incoming
  value exactly when the key is in the schema and the value is neither \<^verbatim>\<open>undefined\<close>
  nor \<^verbatim>\<open>null\<close>; then every \<open>PROPERTY_STATUS\<close> subscriber is called once with the
  whole cache, and nothing else changes.
\<close>

lemma onPropertyStatus_reconciles:
  assumes "inherits_hasOwnProperty (propertyDescriptions m) None"
  shows "\<exists>m'. onPropertyStatus data m = Inr m'
     \<and> (\<forall>key. map_of (properties m') key =
           (case map_of (own_entries data) key of
              None \<Rightarrow> map_of (properties m) key
            | Some v \<Rightarrow>
                if hasOwnProperty (propertyDescriptions m) key \<and> v \<noteq> JUndefined \<and> v \<noteq> JNull
                then Some v else map_of (properties m) key))
     \<and> trace m' = trace m @ map (\<lambda>h. Invoke h (JObject (properties m'))) (handlers_for PROPERTY_STATUS m)
     \<and> m' = m\<lparr>properties := properties m', trace := trace m'\<rparr>"
proof -
  let ?m' = "m\<lparr>properties := properties (fold_status (own_entries data) m),
                trace := trace m @ map (\<lambda>h. Invoke h (JObject (properties (fold_status (own_entries data) m))))
                                       (handlers_for PROPERTY_STATUS m)\<rparr>"
  from assms have "onPropertyStatus data m = Inr ?m'"
    by (simp add: onPropertyStatus_def onPropertyStatus_visiting_fold)
  moreover have "\<forall>key. map_of (properties ?m') key =
           (case map_of (own_entries data) key of
              None \<Rightarrow> map_of (properties m) key
            | Some v \<Rightarrow>
                if hasOwnProperty (propertyDescriptions m) key \<and> v \<noteq> JUndefined \<and> v \<noteq> JNull
                then Some v else map_of (properties m) key)"
    using fold_status_lookup [OF distinct_own_entries, of data m]
    by (simp add: informative_def split: option.splits)
  ultimately show ?thesis by simp
qed

text \<open>There, a second reconciliation of the same payload changes nothing but the trace.\<close>

lemma onPropertyStatus_idempotent:
  assumes "inherits_hasOwnProperty (propertyDescriptions m) None"
    and "onPropertyStatus data m = Inr m1"
  shows "onPropertyStatus data m1 =
           Inr (m1\<lparr>trace := trace m1 @ map (\<lambda>h. Invoke h (JObject (properties m1))) (handlers_for PROPERTY_STATUS m)\<rparr>)"
proof -
  let ?es = "own_entries data"
  from assms have m1: "m1 = m\<lparr>properties := properties (fold_status ?es m),
                trace := trace m @ map (\<lambda>h. Invoke h (JObject (properties (fold_status ?es m))))
                                       (handlers_for PROPERTY_STATUS m)\<rparr>"
    by (simp add: onPropertyStatus_def onPropertyStatus_visiting_fold)
  have loop: "fold_status ?es m1 = m1"
  proof (rule fold_status_absorbed, clarify)
    fix k v
    assume mem: "(k, v) \<in> set ?es" and inf: "informative m1 k v"
    from mem have "map_of ?es k = Some v"
      by (simp add: distinct_own_entries)
    moreover from inf have "informative m k v"
      by (simp add: informative_def m1)
    ultimately show "map_of (properties m1) k = Some v"
      using fold_status_lookup [OF distinct_own_entries, of data m k]
      by (simp add: m1)
  qed
  have schema: "propertyDescriptions m1 = propertyDescriptions m"
    and subscribers: "handlers_for PROPERTY_STATUS m1 = handlers_for PROPERTY_STATUS m"
    by (simp_all add: m1 handlers_for_def)
  from assms(1) show ?thesis
    by (simp add: onPropertyStatus_def onPropertyStatus_visiting_fold loop schema subscribers)
qed

subsection \<open>Keys that are no indices\<close>

lemma digit_char_digit: "d < 10 \<Longrightarrow> digit_char d \<in> set ''0123456789''"
proof -
  assume "d < 10"
  then have "d \<in> {0, 1, 2, 3, 4, 5, 6, 7, 8, 9}" by auto
  then show ?thesis
    unfolding digit_char_def by (elim insertE emptyE) (hypsubst, code_simp)+
qed

lemma index_key_digits: "set (index_key n) \<subseteq> set ''0123456789''"
proof (induction n rule: index_key.induct)
  case (1 n)
  show ?case
  proof (cases "n < 10")
    case True
    with digit_char_digit [of n] show ?thesis
      by (subst index_key.simps) simp
  next
    case False
    with 1 have "set (index_key (n div 10)) \<subseteq> set ''0123456789''" by simp
    with False digit_char_digit [of "n mod 10"] show ?thesis
      by (subst index_key.simps) simp
  qed
qed

lemma not_index: "c \<notin> set ''0123456789'' \<Longrightarrow> \<not> is_index (c # cs)"
proof
  assume c: "c \<notin> set ''0123456789''" and "is_index (c # cs)"
  then have "index_key (index_of_key (c # cs)) = c # cs" by (simp add: is_index_def)
  with index_key_digits [of "index_of_key (c # cs)"] have "c \<in> set ''0123456789''" by simp
  with c show False by contradiction
qed

lemma assign_plain:
  "\<not> is_index k \<Longrightarrow>
     assign k v obj = (if hasOwnProperty obj k then AList.update k v obj else obj @ [(k, v)])"
  by (simp add: assign_def insert_property_last enumerated_before_def)

subsection \<open>The sample things, evaluated\<close>

lemma lamp_schema: "propertyDescriptions lamp = lamp_properties"
  by (simp add: lamp_def constructor_def lamp_description_def lamp_properties_def
      updateProperties_def updateEvents_def initWebsocket_def copy_properties_def
      object_literal_def assign_plain not_index hasOwnProperty_def Let_def split: option.splits)

lemma shadowed_schema:
  "propertyDescriptions shadowed_lamp =
     lamp_properties
     @ [(''hasOwnProperty'', \<lparr>ptype = JString ''boolean'', phref = ''/things/lamp/properties/hasOwnProperty''\<rparr>)]"
  by (simp add: shadowed_lamp_def shadowed_description_def constructor_def lamp_description_def lamp_properties_def
      updateProperties_def updateEvents_def initWebsocket_def copy_properties_def
      object_literal_def assign_plain not_index hasOwnProperty_def Let_def split: option.splits)

lemma lamp_event_schema:
  "eventDescriptions lamp = [(''overheated'', JObject [])]" "eventDescriptions_proto lamp = None"
  by (simp_all add: lamp_def constructor_def lamp_description_def
      updateProperties_def updateEvents_def initWebsocket_def copy_events_def set_property_def
      object_literal_def assign_plain not_index hasOwnProperty_def Let_def split: option.splits)

lemma constructor_properties: "properties (constructor e d) = []"
  by (simp add: constructor_def updateProperties_def updateEvents_def initWebsocket_def Let_def
      split: option.splits)

lemma constructor_events: "events (constructor e d) = JArray []"
  by (simp add: constructor_def updateProperties_def updateEvents_def initWebsocket_def Let_def
      split: option.splits)

lemma constructor_handlers: "handlers (constructor e d) = []"
  by (simp add: constructor_def updateProperties_def updateEvents_def initWebsocket_def Let_def
      split: option.splits)

lemma constructor_schema: "propertyDescriptions (constructor e d) = copy_properties (d_properties d)"
  by (simp add: constructor_def updateProperties_def updateEvents_def initWebsocket_def Let_def
      split: option.splits)

lemma lamp_cache: "properties lamp = []" "properties shadowed_lamp = []"
  by (simp_all add: lamp_def shadowed_lamp_def constructor_properties)

lemma lamp_events: "events lamp = JArray []"
  by (simp add: lamp_def constructor_events)

lemma lamp_handlers: "handlers lamp = []" "handlers shadowed_lamp = []"
  by (simp_all add: lamp_def shadowed_lamp_def constructor_handlers)

lemma lamp_ws:
  "ws lamp = Some \<lparr>ws_url = ''ws://gateway.local/things/lamp?jwt=token'', open_listener = True, listening = True\<rparr>"
  by (simp add: lamp_def constructor_def lamp_description_def sample_env_def has_href_def
      updateProperties_def updateEvents_def initWebsocket_def replace_http_def Let_def
      split: option.splits)

lemma lamp_inherits: "inherits_hasOwnProperty (propertyDescriptions lamp) None"
  by (simp add: lamp_schema lamp_properties_def inherits_hasOwnProperty_def hasOwnProperty_def)

lemma lamp_events_inherits: "inherits_hasOwnProperty (eventDescriptions lamp) (eventDescriptions_proto lamp)"
  by (simp add: lamp_event_schema inherits_hasOwnProperty_def hasOwnProperty_def)

lemma shadowed_not_inherits: "\<not> inherits_hasOwnProperty (propertyDescriptions shadowed_lamp) None"
  by (simp add: shadowed_schema lamp_properties_def inherits_hasOwnProperty_def hasOwnProperty_def)

lemma single_entry [simp]: "own_entries (JObject [(k, v)]) = [(k, v)]"
  by (simp add: object_literal_def assign_def hasOwnProperty_def)

lemma object_literal_single [simp]: "object_literal [(k, v)] = [(k, v)]"
  by (simp add: object_literal_def assign_def hasOwnProperty_def)

lemma subscribed_shadowed:
  "subscribe PROPERTY_STATUS 7 shadowed_lamp =
     shadowed_lamp\<lparr>handlers := [(PROPERTY_STATUS, 7)], trace := trace shadowed_lamp @ [Invoke 7 (JObject [])]\<rparr>"
  by (simp add: subscribe_def Model_subscribe_def lamp_handlers lamp_cache)

subsection \<open>A property that is named hasOwnProperty\<close>

text \<open>
  C1. The description of \<open>shadowed_lamp\<close> has a property \<^verbatim>\<open>hasOwnProperty\<close> besides
  \<^verbatim>\<open>level\<close>, and a handler is subscribed to \<open>PROPERTY_STATUS\<close>. The payload
  \<^verbatim>\<open>{level: 5}\<close> has a key of the schema with a value that is neither \<^verbatim>\<open>undefined\<close>
  nor \<^verbatim>\<open>null\<close>, but \<^verbatim>\<open>onPropertyStatus\<close> ends in a \<^verbatim>\<open>TypeError\<close> at the test of the
  first key: the cache stays empty and no handler is called.
\<close>

theorem onPropertyStatus_shadowed:
  "hasOwnProperty (propertyDescriptions shadowed_lamp) ''level''
   \<and> handlers_for PROPERTY_STATUS (subscribe PROPERTY_STATUS 7 shadowed_lamp) = [7]
   \<and> onPropertyStatus (JObject [(''level'', JNumber (Num 5))]) (subscribe PROPERTY_STATUS 7 shadowed_lamp)
       = Inl TypeError
   \<and> step sample_env (OnPropertyStatus (JObject [(''level'', JNumber (Num 5))]))
        (subscribe PROPERTY_STATUS 7 shadowed_lamp)
       = subscribe PROPERTY_STATUS 7 shadowed_lamp"
proof -
  have known: "hasOwnProperty (propertyDescriptions shadowed_lamp) ''level''"
    by (simp add: shadowed_schema lamp_properties_def hasOwnProperty_def)
  have subscriber: "handlers_for PROPERTY_STATUS (subscribe PROPERTY_STATUS 7 shadowed_lamp) = [7]"
    by (simp add: subscribed_shadowed handlers_for_def)
  have "\<not> inherits_hasOwnProperty (propertyDescriptions (subscribe PROPERTY_STATUS 7 shadowed_lamp)) None"
    using shadowed_not_inherits by (simp add: subscribed_shadowed)
  then have throws: "onPropertyStatus (JObject [(''level'', JNumber (Num 5))]) (subscribe PROPERTY_STATUS 7 shadowed_lamp)
       = Inl TypeError"
    by (simp add: onPropertyStatus_def onPropertyStatus_visiting_fold)
  from known subscriber throws show ?thesis by simp
qed

theorem onPropertyStatus_shadowed_witness:
  "onPropertyStatus (JObject [(''level'', JNumber (Num 5))]) (subscribe PROPERTY_STATUS 7 shadowed_lamp)
     = Inl TypeError"
  using onPropertyStatus_shadowed by blast

text \<open>
  C7. On the same model the same payload twice: both calls of \<^verbatim>\<open>onPropertyStatus\<close> end
  in a \<^verbatim>\<open>TypeError\<close>, the model after the two calls is the model before them, and so
  the subscribed handler has not been called at all.
\<close>

theorem onPropertyStatus_twice_shadowed:
  "handlers_for PROPERTY_STATUS (subscribe PROPERTY_STATUS 7 shadowed_lamp) = [7]
   \<and> step sample_env (OnPropertyStatus (JObject [(''level'', JNumber (Num 5))]))
        (step sample_env (OnPropertyStatus (JObject [(''level'', JNumber (Num 5))]))
           (subscribe PROPERTY_STATUS 7 shadowed_lamp))
       = subscribe PROPERTY_STATUS 7 shadowed_lamp
   \<and> trace (step sample_env (OnPropertyStatus (JObject [(''level'', JNumber (Num 5))]))
              (step sample_env (OnPropertyStatus (JObject [(''level'', JNumber (Num 5))]))
                 (subscribe PROPERTY_STATUS 7 shadowed_lamp)))
       = trace shadowed_lamp @ [Invoke 7 (JObject [])]"
proof -
  let ?m = "subscribe PROPERTY_STATUS 7 shadowed_lamp"
  have subscriber: "handlers_for PROPERTY_STATUS ?m = [7]"
    by (simp add: subscribed_shadowed handlers_for_def)
  have "\<not> inherits_hasOwnProperty (propertyDescriptions ?m) None"
    using shadowed_not_inherits by (simp add: subscribed_shadowed)
  then have "onPropertyStatus (JObject [(''level'', JNumber (Num 5))]) ?m = Inl TypeError"
    by (simp add: onPropertyStatus_def onPropertyStatus_visiting_fold)
  then have once: "step sample_env (OnPropertyStatus (JObject [(''level'', JNumber (Num 5))])) ?m = ?m"
    by simp
  have "trace ?m = trace shadowed_lamp @ [Invoke 7 (JObject [])]"
    by (simp add: subscribed_shadowed)
  with subscriber once show ?thesis by simp
qed

theorem onPropertyStatus_twice_shadowed_witness:
  "trace (step sample_env (OnPropertyStatus (JObject [(''level'', JNumber (Num 5))]))
            (step sample_env (OnPropertyStatus (JObject [(''level'', JNumber (Num 5))]))
               (subscribe PROPERTY_STATUS 7 shadowed_lamp)))
     = trace shadowed_lamp @ [Invoke 7 (JObject [])]"
  using onPropertyStatus_twice_shadowed by blast

text \<open>
  C2. On the same model \<^verbatim>\<open>setProperty("missing", 1)\<close>: the name is not in the schema,
  but the call ends in a \<^verbatim>\<open>TypeError\<close> and returns no promise at all.
\<close>

theorem setProperty_shadowed:
  "\<not> hasOwnProperty (propertyDescriptions shadowed_lamp) ''missing''
   \<and> setProperty sample_env ''missing'' (JNumber (Num 1)) shadowed_lamp = Inl TypeError"
proof -
  have "\<not> hasOwnProperty (propertyDescriptions shadowed_lamp) ''missing''"
    by (simp add: shadowed_schema lamp_properties_def hasOwnProperty_def)
  moreover have "setProperty sample_env ''missing'' (JNumber (Num 1)) shadowed_lamp = Inl TypeError"
    using shadowed_not_inherits by (simp add: setProperty_def call_hasOwnProperty_def)
  ultimately show ?thesis by simp
qed

theorem setProperty_shadowed_witness:
  "setProperty sample_env ''missing'' (JNumber (Num 1)) shadowed_lamp = Inl TypeError"
  using setProperty_shadowed by blast

subsection \<open>Subscribing\<close>

text \<open>
  C10. Subscribing to \<open>PROPERTY_STATUS\<close> registers the handler and calls it once, at
  once, with the whole of \<open>properties\<close>; subscribing to \<open>EVENT_OCCURRED\<close> registers the
  handler and calls nothing. In both cases the registry is the only field of the
  model that changes, apart from the record of the call.
\<close>

theorem subscribe_initial_call:
  "subscribe PROPERTY_STATUS h m =
     m\<lparr>handlers := handlers (Model_subscribe PROPERTY_STATUS h m),
       trace := trace m @ [Invoke h (JObject (properties m))]\<rparr>
   \<and> subscribe EVENT_OCCURRED h m =
     m\<lparr>handlers := handlers (Model_subscribe EVENT_OCCURRED h m)\<rparr>
   \<and> (PROPERTY_STATUS, h) \<in> set (handlers (subscribe PROPERTY_STATUS h m))
   \<and> (EVENT_OCCURRED, h) \<in> set (handlers (subscribe EVENT_OCCURRED h m))"
  by (simp add: subscribe_def Model_subscribe_def)

theorem subscribe_initial_call_witness:
  "subscribe PROPERTY_STATUS 7 lamp =
     lamp\<lparr>handlers := [(PROPERTY_STATUS, 7)], trace := trace lamp @ [Invoke 7 (JObject [])]\<rparr>
   \<and> subscribe EVENT_OCCURRED 7 lamp = lamp\<lparr>handlers := [(EVENT_OCCURRED, 7)]\<rparr>"
  using subscribe_initial_call [of 7 lamp]
  by (simp add: Model_subscribe_def lamp_handlers lamp_cache)

subsection \<open>Writing a property\<close>

lemma sublist_suffix: "sublist nm (pre @ nm)"
  by (metis sublist_appendI append_Nil2)

text \<open>
  Where the property schema has no entry named \<^verbatim>\<open>hasOwnProperty\<close>, a name that is not
  in the schema is rejected at once, with a message that ends in the name, and
  nothing is sent.
\<close>

lemma setProperty_unknown_rejects:
  assumes "inherits_hasOwnProperty (propertyDescriptions m) None"
    and "\<not> hasOwnProperty (propertyDescriptions m) nm"
  shows "setProperty e nm v m = Inr (Settled (RejectedWith (''Unavailable property name '' @ nm)), m)
     \<and> sublist nm (''Unavailable property name '' @ nm)"
proof -
  from assms(2) have none: "map_of (propertyDescriptions m) nm = None"
    by (simp add: hasOwnProperty_def)
  have "setProperty e nm v m = Inr (Settled (RejectedWith (''Unavailable property name '' @ nm)), m)"
    unfolding setProperty_def none using assms(1) by (simp add: call_hasOwnProperty_def)
  moreover have "sublist nm (''Unavailable property name '' @ nm)"
    by (rule sublist_suffix)
  ultimately show ?thesis by simp
qed





subsection \<open>Events\<close>

lemma onEvent_loop_array:
  "events m = JArray es \<Longrightarrow> inherits_hasOwnProperty (eventDescriptions m) (eventDescriptions_proto m) \<Longrightarrow>
     onEvent_loop xs delta m =
       Inr (fold (\<lambda>(k, v) obj. assign k v obj) (known_events m xs) delta,
            m\<lparr>events := JArray (es @ map (\<lambda>(k, v). JObject [(k, v)]) (known_events m xs))\<rparr>)"
proof (induction xs arbitrary: delta m es)
  case Nil
  then show ?case by (simp add: known_events_def)
next
  case (Cons kv rest)
  obtain event v where kv: "kv = (event, v)" by (cases kv)
  show ?case
  proof (cases "hasOwnProperty (eventDescriptions m) event")
    case False
    with Cons.IH [OF Cons.prems] Cons.prems kv show ?thesis
      by (simp add: known_events_def call_hasOwnProperty_def)
  next
    case True
    let ?m' = "m\<lparr>events := JArray (es @ [JObject [(event, v)]])\<rparr>"
    have "events ?m' = JArray (es @ [JObject [(event, v)]])"
      and "inherits_hasOwnProperty (eventDescriptions ?m') (eventDescriptions_proto ?m')"
      using Cons.prems by simp_all
    from Cons.IH [OF this] True Cons.prems kv show ?thesis
      by (simp add: known_events_def call_hasOwnProperty_def)
  qed
qed

lemma enumerable_known_events: "enumerable (known_events m (own_entries data))"
  unfolding known_events_def by (rule enumerable_filter) (rule enumerable_own_entries)

lemma onEvent_delta_lemma:
  assumes "events m = JArray es"
    and "inherits_hasOwnProperty (eventDescriptions m) (eventDescriptions_proto m)"
  shows "onEvent data m =
           Inr (m\<lparr>events := JArray (es @ map (\<lambda>(k, v). JObject [(k, v)]) (known_events m (own_entries data))),
                  trace := trace m @ map (\<lambda>h. Invoke h (JObject (known_events m (own_entries data))))
                                         (handlers_for EVENT_OCCURRED m)\<rparr>)"
proof -
  let ?sel = "known_events m (own_entries data)"
  have delta: "fold (\<lambda>(k, v) obj. assign k v obj) ?sel [] = ?sel"
    using fold_assign_enumerable [of "[]" ?sel] enumerable_known_events by simp
  show ?thesis
    unfolding onEvent_def onEvent_loop_array [OF assms] delta
    by (simp add: handleEvent_def handlers_for_def)
qed

text \<open>
  C5, as the code has it. While \<open>events\<close> is an array and the call of
  \<^verbatim>\<open>hasOwnProperty\<close> on the event schema reaches the built-in method,
  \<^verbatim>\<open>onEvent(data)\<close> appends one single-key object per entry of \<open>data\<close> whose key is in
  the event schema, in the order of \<open>data\<close>, and calls every \<open>EVENT_OCCURRED\<close>
  subscriber once with the object made of exactly those entries. Nothing else in the
  model changes.
\<close>

theorem onEvent_delta:
  assumes "events m = JArray es"
    and "inherits_hasOwnProperty (eventDescriptions m) (eventDescriptions_proto m)"
  shows "onEvent data m =
           Inr (m\<lparr>events := JArray (es @ map (\<lambda>(k, v). JObject [(k, v)]) (known_events m (own_entries data))),
                  trace := trace m @ map (\<lambda>h. Invoke h (JObject (known_events m (own_entries data))))
                                         (handlers_for EVENT_OCCURRED m)\<rparr>)"
  using assms by (rule onEvent_delta_lemma)

lemma motion_overheated:
  "own_entries (JObject [(''motion'', JObject []), (''overheated'', v)]) = [(''motion'', JObject []), (''overheated'', v)]"
  by (simp add: object_literal_def assign_plain not_index hasOwnProperty_def)

theorem onEvent_delta_witness:
  "events (subscribe EVENT_OCCURRED 7 lamp) = JArray []
   \<and> inherits_hasOwnProperty (eventDescriptions (subscribe EVENT_OCCURRED 7 lamp))
        (eventDescriptions_proto (subscribe EVENT_OCCURRED 7 lamp))
   \<and> onEvent (JObject [(''motion'', JObject []), (''overheated'', JObject [(''temperature'', JNumber (Num 90))])])
        (subscribe EVENT_OCCURRED 7 lamp)
     = Inr (lamp\<lparr>events := JArray [JObject [(''overheated'', JObject [(''temperature'', JNumber (Num 90))])]],
                 handlers := [(EVENT_OCCURRED, 7)],
                 trace := trace lamp @ [Invoke 7 (JObject [(''overheated'', JObject [(''temperature'', JNumber (Num 90))])])]\<rparr>)"
proof -
  have sub: "subscribe EVENT_OCCURRED 7 lamp = lamp\<lparr>handlers := [(EVENT_OCCURRED, 7)]\<rparr>"
    by (simp add: subscribe_def Model_subscribe_def lamp_handlers)
  have arr: "events (subscribe EVENT_OCCURRED 7 lamp) = JArray []"
    by (simp add: sub lamp_events)
  have builtin: "inherits_hasOwnProperty (eventDescriptions (subscribe EVENT_OCCURRED 7 lamp))
        (eventDescriptions_proto (subscribe EVENT_OCCURRED 7 lamp))"
    using lamp_events_inherits by (simp add: sub)
  from onEvent_delta [OF arr builtin, of "JObject [(''motion'', JObject []), (''overheated'', JObject [(''temperature'', JNumber (Num 90))])]"]
  have "onEvent (JObject [(''motion'', JObject []), (''overheated'', JObject [(''temperature'', JNumber (Num 90))])])
        (subscribe EVENT_OCCURRED 7 lamp)
     = Inr (lamp\<lparr>events := JArray [JObject [(''overheated'', JObject [(''temperature'', JNumber (Num 90))])]],
                 handlers := [(EVENT_OCCURRED, 7)],
                 trace := trace lamp @ [Invoke 7 (JObject [(''overheated'', JObject [(''temperature'', JNumber (Num 90))])])]\<rparr>)"
    unfolding motion_overheated
    by (simp add: sub lamp_events lamp_event_schema known_events_def hasOwnProperty_def handlers_for_def)
  with arr builtin show ?thesis by simp
qed

text \<open>
  C5, as the specification has it, fails. The request of \<^verbatim>\<open>updateEvents\<close> is answered
  with an error body, which \<^verbatim>\<open>updateEvents\<close> stores as the event list without looking
  at \<^verbatim>\<open>response.ok\<close>. The event \<^verbatim>\<open>overheated\<close> of the schema then arrives:
  \<^verbatim>\<open>this.events.push\<close> is a \<^verbatim>\<open>TypeError\<close>, nothing is appended and no subscriber is
  called.
\<close>

theorem onEvent_counterexample:
  "events (step sample_env
             (UpdateEvents_settled (Response False 500 ''Internal Server Error''
                                      (Some (JObject [(''message'', JString ''failed'')]))))
             (subscribe EVENT_OCCURRED 7 lamp))
     = JObject [(''message'', JString ''failed'')]
   \<and> hasOwnProperty (eventDescriptions lamp) ''overheated''
   \<and> onEvent (JObject [(''overheated'', JObject [])])
        (step sample_env
           (UpdateEvents_settled (Response False 500 ''Internal Server Error''
                                    (Some (JObject [(''message'', JString ''failed'')]))))
           (subscribe EVENT_OCCURRED 7 lamp))
     = Inl TypeError"
proof -
  have sub: "subscribe EVENT_OCCURRED 7 lamp = lamp\<lparr>handlers := [(EVENT_OCCURRED, 7)]\<rparr>"
    by (simp add: subscribe_def Model_subscribe_def lamp_handlers)
  show ?thesis
    using lamp_events_inherits
    by (simp add: sub updateEvents_settled_def onEvent_def lamp_event_schema
        call_hasOwnProperty_def hasOwnProperty_def)
qed

subsection \<open>What each operation leaves alone\<close>

lemma opened_append [simp]: "opened (xs @ ys) = opened xs @ opened ys"
  by (induction xs rule: opened.induct) simp_all

lemma closes_append [simp]: "closes (xs @ ys) = closes xs + closes ys"
  by (induction xs rule: closes.induct) simp_all

lemma opened_invoke [simp]: "opened (map (\<lambda>h. Invoke h payload) hs) = []"
  by (induction hs) simp_all

lemma closes_invoke [simp]: "closes (map (\<lambda>h. Invoke h payload) hs) = 0"
  by (induction hs) simp_all

lemma opened_fetches [simp]: "opened (map (\<lambda>(n, p). Fetch meth (f p) body) ps) = []"
  by (induction ps) auto

lemma closes_fetches [simp]: "closes (map (\<lambda>(n, p). Fetch meth (f p) body) ps) = 0"
  by (induction ps) auto

lemma onPropertyStatus_visiting_frame:
  assumes "onPropertyStatus_visiting visited m = Inr m'"
  shows "\<exists>cache payload. m' = m\<lparr>properties := cache,
                                    trace := trace m @ map (\<lambda>h. Invoke h payload) (handlers_for PROPERTY_STATUS m)\<rparr>
                           \<and> cache = properties (fold_status visited m)"
  using assms by (auto simp: onPropertyStatus_visiting_fold split: if_splits)

lemma onEvent_loop_frame:
  "onEvent_loop xs delta m = Inr (delta', m') \<Longrightarrow> m' = m\<lparr>events := events m'\<rparr>"
proof (induction xs arbitrary: delta m)
  case Nil
  then show ?case by simp
next
  case (Cons kv rest)
  obtain event v where kv: "kv = (event, v)" by (cases kv)
  from Cons.prems kv have builtin: "inherits_hasOwnProperty (eventDescriptions m) (eventDescriptions_proto m)"
    by (auto simp: call_hasOwnProperty_def split: if_splits)
  show ?case
  proof (cases "hasOwnProperty (eventDescriptions m) event")
    case False
    with Cons.prems kv builtin have "onEvent_loop rest delta m = Inr (delta', m')"
      by (simp add: call_hasOwnProperty_def)
    then show ?thesis by (rule Cons.IH)
  next
    case True
    with Cons.prems kv builtin obtain es where es: "events m = JArray es"
      by (cases "events m") (simp_all add: call_hasOwnProperty_def)
    from Cons.prems kv builtin True es
    have "onEvent_loop rest (assign event v delta) (m\<lparr>events := JArray (es @ [JObject [(event, v)]])\<rparr>) = Inr (delta', m')"
      by (simp add: call_hasOwnProperty_def)
    from Cons.IH [OF this]
    have "m' = m\<lparr>events := JArray (es @ [JObject [(event, v)]])\<rparr>\<lparr>events := events m'\<rparr>" .
    then show ?thesis by simp
  qed
qed

lemma onEvent_frame:
  assumes "onEvent data m = Inr m'"
  shows "\<exists>evs payload. m' = m\<lparr>events := evs, trace := trace m @ map (\<lambda>h. Invoke h payload) (handlers_for EVENT_OCCURRED m)\<rparr>"
proof -
  from assms obtain delta m1 where loop: "onEvent_loop (own_entries data) [] m = Inr (delta, m1)"
    and m': "m' = handleEvent EVENT_OCCURRED (JObject delta) m1"
    by (auto simp: onEvent_def split: sum.splits)
  from onEvent_loop_frame [OF loop] have m1: "m1 = m\<lparr>events := events m1\<rparr>" .
  have "m' = m\<lparr>events := events m', trace := trace m @ map (\<lambda>h. Invoke h (JObject delta)) (handlers_for EVENT_OCCURRED m)\<rparr>"
    unfolding m' by (subst (1 2) m1) (simp add: handleEvent_def handlers_for_def)
  then show ?thesis by blast
qed

lemma same_setup_refl [simp]: "same_setup m m"
  by (simp add: same_setup_def)

lemma same_setup_trans: "same_setup a b \<Longrightarrow> same_setup b c \<Longrightarrow> same_setup a c"
  by (simp add: same_setup_def)

lemma onPropertyStatus_visiting_same_setup:
  "onPropertyStatus_visiting visited m = Inr m' \<Longrightarrow>
     same_setup m m' \<and> events m' = events m \<and> closes (trace m') = closes (trace m)"
proof -
  assume "onPropertyStatus_visiting visited m = Inr m'"
  from onPropertyStatus_visiting_frame [OF this] obtain cache payload where
    eq: "m' = m\<lparr>properties := cache, trace := trace m @ map (\<lambda>h. Invoke h payload) (handlers_for PROPERTY_STATUS m)\<rparr>"
    by blast
  show ?thesis unfolding eq by (simp add: same_setup_def)
qed

lemma onEvent_same_setup:
  "onEvent data m = Inr m' \<Longrightarrow>
     same_setup m m' \<and> properties m' = properties m \<and> closes (trace m') = closes (trace m)"
proof -
  assume "onEvent data m = Inr m'"
  from onEvent_frame [OF this] obtain evs payload where
    eq: "m' = m\<lparr>events := evs, trace := trace m @ map (\<lambda>h. Invoke h payload) (handlers_for EVENT_OCCURRED m)\<rparr>"
    by blast
  show ?thesis unfolding eq by (simp add: same_setup_def)
qed

lemma ws_message_cases:
  "ws_message parsed m = Inr m' \<Longrightarrow>
     m' = m \<or> (\<exists>visited. onPropertyStatus_visiting visited m = Inr m') \<or> (\<exists>data. onEvent data m = Inr m')"
  by (auto simp: ws_message_def onPropertyStatus_def split: option.splits if_splits sum.splits)

text \<open>
  Every operation either leaves cache and event list alone, or is a successful
  reconciliation, or a successful \<^verbatim>\<open>onEvent\<close>, or the answer to \<^verbatim>\<open>updateEvents\<close>.
\<close>

lemma step_cases:
  "properties (step e operation m) = properties m \<and> events (step e operation m) = events m
     \<and> same_setup m (step e operation m)
   \<or> (\<exists>visited. onPropertyStatus_visiting visited m = Inr (step e operation m))
   \<or> (\<exists>data. onEvent data m = Inr (step e operation m))
   \<or> (\<exists>r. operation = UpdateEvents_settled r \<and> step e operation m = updateEvents_settled r m)"
proof (cases operation)
  case RemoveThing
  then show ?thesis by (simp add: removeThing_def same_setup_def)
next
  case (RemoveThing_settled r)
  then show ?thesis
    by (auto simp: removeThing_settled_def cleanup_def Model_cleanup_def same_setup_def
        split: response.splits option.splits)
next
  case (UpdateThing updates)
  then show ?thesis by (simp add: updateThing_def same_setup_def)
next
  case (UpdateThing_settled r)
  then show ?thesis by (simp add: updateThing_settled_def split: response.splits)
next
  case Cleanup
  then show ?thesis
    by (auto simp: cleanup_def Model_cleanup_def same_setup_def split: option.splits)
next
  case (Subscribe event handler)
  then show ?thesis
    by (auto simp: subscribe_def Model_subscribe_def same_setup_def split: event_kind.splits)
next
  case (SetProperty nm v)
  then show ?thesis
    by (auto simp: setProperty_def same_setup_def Let_def split: option.splits sum.splits)
next
  case (SetProperty_settled nm r)
  then show ?thesis
    by (auto simp: setProperty_settled_def onPropertyStatus_def split: response.splits option.splits sum.splits)
next
  case UpdateProperties
  then show ?thesis by (simp add: updateProperties_def same_setup_def)
next
  case (UpdateProperties_settled rs)
  then show ?thesis
    by (auto simp: updateProperties_settled_def split: option.splits prod.splits sum.splits)
next
  case (OnPropertyStatus data)
  then show ?thesis by (cases "onPropertyStatus data m") (auto simp: onPropertyStatus_def)
next
  case UpdateEvents
  then show ?thesis by (auto simp: updateEvents_def same_setup_def split: option.splits)
next
  case (UpdateEvents_settled r)
  then show ?thesis by simp
next
  case (OnEvent data)
  then show ?thesis by (cases "onEvent data m") auto
next
  case WsOpen
  then show ?thesis
    by (auto simp: ws_open_def same_setup_def Let_def split: option.splits)
next
  case (WsMessage parsed)
  show ?thesis
  proof (cases "ws_message parsed m")
    case (Inl err)
    with WsMessage show ?thesis by simp
  next
    case (Inr m')
    from ws_message_cases [OF Inr] WsMessage Inr show ?thesis by auto
  qed
next
  case WsClose
  then show ?thesis by (auto simp: ws_closed_def same_setup_def split: option.splits)
next
  case WsError
  then show ?thesis by (auto simp: ws_closed_def same_setup_def split: option.splits)
qed

lemma updateEvents_settled_same_setup [simp]: "same_setup m (updateEvents_settled r m)"
  by (auto simp: updateEvents_settled_def same_setup_def split: response.splits option.splits)

lemma updateEvents_settled_properties [simp]: "properties (updateEvents_settled r m) = properties m"
  by (auto simp: updateEvents_settled_def split: response.splits option.splits)

lemma step_same_setup: "same_setup m (step e operation m)"
  using step_cases [of e operation m]
    onPropertyStatus_visiting_same_setup [of _ m "step e operation m"]
    onEvent_same_setup [of _ m "step e operation m"]
  by (elim disjE exE conjE) simp_all

lemma reachable_same_setup: "reachable e d m \<Longrightarrow> same_setup (constructor e d) m"
proof (induction rule: reachable.induct)
  case constructed
  show ?case by simp
next
  case (stepped m operation)
  from stepped.IH step_same_setup show ?case by (rule same_setup_trans)
qed

text \<open>The calls of \<^verbatim>\<open>close\<close> that an operation makes on a model that has a WebSocket.\<close>

lemma step_closes:
  assumes "ws m \<noteq> None"
  shows "closes (trace (step e operation m)) = closes (trace m) + (if tears_down operation then 1 else 0)"
proof -
  from assms obtain w where w: "ws m = Some w" by blast
  show ?thesis
  proof (cases operation)
    case RemoveThing
    then show ?thesis by (simp add: removeThing_def)
  next
    case (RemoveThing_settled r)
    with w show ?thesis
      by (cases r) (simp_all add: removeThing_settled_def cleanup_def Model_cleanup_def)
  next
    case (UpdateThing updates)
    then show ?thesis by (simp add: updateThing_def)
  next
    case (UpdateThing_settled r)
    then show ?thesis by (simp add: updateThing_settled_def split: response.splits)
  next
    case Cleanup
    with w show ?thesis by (simp add: cleanup_def Model_cleanup_def)
  next
    case (Subscribe event handler)
    then show ?thesis
      by (auto simp: subscribe_def Model_subscribe_def split: event_kind.splits)
  next
    case (SetProperty nm v)
    then show ?thesis
      by (auto simp: setProperty_def Let_def split: option.splits sum.splits)
  next
    case (SetProperty_settled nm r)
    then show ?thesis
      using onPropertyStatus_visiting_same_setup [of _ m]
      by (auto simp: setProperty_settled_def onPropertyStatus_def split: response.splits option.splits sum.splits)
  next
    case UpdateProperties
    then show ?thesis by (simp add: updateProperties_def)
  next
    case (UpdateProperties_settled rs)
    then show ?thesis
      using onPropertyStatus_visiting_same_setup [of _ m]
      by (auto simp: updateProperties_settled_def split: option.splits prod.splits sum.splits)
  next
    case (OnPropertyStatus data)
    then show ?thesis
      using onPropertyStatus_visiting_same_setup [of _ m]
      by (auto simp: onPropertyStatus_def split: sum.splits)
  next
    case UpdateEvents
    then show ?thesis by (auto simp: updateEvents_def split: option.splits)
  next
    case (UpdateEvents_settled r)
    then show ?thesis by (auto simp: updateEvents_settled_def split: response.splits option.splits)
  next
    case (OnEvent data)
    then show ?thesis
      using onEvent_same_setup [of _ m] by (auto split: sum.splits)
  next
    case WsOpen
    then show ?thesis by (auto simp: ws_open_def Let_def split: option.splits)
  next
    case (WsMessage parsed)
    show ?thesis
    proof (cases "ws_message parsed m")
      case (Inl err)
      with WsMessage show ?thesis by simp
    next
      case (Inr m')
      from ws_message_cases [OF Inr] WsMessage Inr
        onPropertyStatus_visiting_same_setup [of _ m m'] onEvent_same_setup [of _ m m']
      show ?thesis by auto
    qed
  next
    case WsClose
    then show ?thesis by (auto simp: ws_closed_def split: option.splits)
  next
    case WsError
    then show ?thesis by (auto simp: ws_closed_def split: option.splits)
  qed
qed

subsection \<open>The constructor\<close>

lemma constructor_attached:
  "has_href d \<Longrightarrow>
     \<exists>w. ws (constructor e d) = Some w \<and> opened (trace (constructor e d)) = [ws_url w]
         \<and> closes (trace (constructor e d)) = 0"
  by (auto simp: constructor_def updateProperties_def updateEvents_def initWebsocket_def Let_def
      has_href_def split: option.splits)

lemma constructor_detached:
  "\<not> has_href d \<Longrightarrow> ws (constructor e d) = None \<and> opened (trace (constructor e d)) = []"
  by (auto simp: constructor_def updateProperties_def updateEvents_def initWebsocket_def Let_def
      split: option.splits)

subsection \<open>The cache stays within the schema\<close>

lemma fold_status_within:
  "properties_within_schema m \<Longrightarrow> properties_within_schema (fold_status es m)"
proof (induction es m rule: fold_status.induct)
  case (1 m)
  then show ?case by simp
next
  case (2 k v rest m)
  show ?case
  proof (cases "informative m k v")
    case False
    with 2 show ?thesis by simp
  next
    case True
    let ?m' = "m\<lparr>properties := assign k v (properties m)\<rparr>"
    from True "2.prems" set_assign [of k v "properties m"]
    have "properties_within_schema ?m'"
      by (auto simp: properties_within_schema_def informative_def list_all_iff)
    with "2.IH"(1) True show ?thesis by simp
  qed
qed

lemma onPropertyStatus_visiting_within:
  assumes "properties_within_schema m" and "onPropertyStatus_visiting visited m = Inr m'"
  shows "properties_within_schema m'"
proof -
  from onPropertyStatus_visiting_frame [OF assms(2)] obtain payload where
    eq: "m' = m\<lparr>properties := properties (fold_status visited m),
                 trace := trace m @ map (\<lambda>h. Invoke h payload) (handlers_for PROPERTY_STATUS m)\<rparr>"
    by blast
  from fold_status_within [OF assms(1), of visited] show ?thesis
    unfolding eq by (simp add: properties_within_schema_def)
qed

lemma step_within:
  assumes "properties_within_schema m"
  shows "properties_within_schema (step e operation m)"
proof -
  from step_same_setup [of m e operation]
  have schema: "propertyDescriptions (step e operation m) = propertyDescriptions m"
    by (simp add: same_setup_def)
  from step_cases [of e operation m] show ?thesis
  proof (elim disjE exE conjE)
    assume "properties (step e operation m) = properties m"
    with assms schema show ?thesis by (simp add: properties_within_schema_def)
  next
    fix visited assume "onPropertyStatus_visiting visited m = Inr (step e operation m)"
    with assms show ?thesis by (rule onPropertyStatus_visiting_within)
  next
    fix data assume "onEvent data m = Inr (step e operation m)"
    from onEvent_same_setup [OF this] assms schema show ?thesis
      by (simp add: properties_within_schema_def)
  next
    fix r assume "step e operation m = updateEvents_settled r m"
    with assms schema show ?thesis by (simp add: properties_within_schema_def)
  qed
qed

lemma reachable_within: "reachable e d m \<Longrightarrow> properties_within_schema m"
proof (induction rule: reachable.induct)
  case constructed
  show ?case by (simp add: properties_within_schema_def constructor_properties)
next
  case (stepped m operation)
  from stepped.IH show ?case by (rule step_within)
qed

text \<open>
  C3. In every model that a run can reach, each key of \<open>properties\<close> is a key of the
  property schema, and the schema is the one the constructor built. A name that is
  not in the schema is therefore not in \<open>properties\<close> after a status payload has been
  handed to \<^verbatim>\<open>onPropertyStatus\<close>, whatever the payload says about it.
\<close>

theorem properties_only_schema_keys:
  assumes "reachable e d m"
  shows "(\<forall>key \<in> fst ` set (properties m). hasOwnProperty (propertyDescriptions m) key)
     \<and> propertyDescriptions m = copy_properties (d_properties d)
     \<and> (\<forall>data key. \<not> hasOwnProperty (propertyDescriptions m) key \<longrightarrow>
           key \<notin> fst ` set (properties (step e (OnPropertyStatus data) m)))"
proof (intro conjI allI impI)
  from reachable_within [OF assms]
  show "\<forall>key \<in> fst ` set (properties m). hasOwnProperty (propertyDescriptions m) key"
    by (auto simp: properties_within_schema_def list_all_iff)
  from reachable_same_setup [OF assms]
  show "propertyDescriptions m = copy_properties (d_properties d)"
    by (simp add: same_setup_def constructor_schema)
  fix data key
  assume unknown: "\<not> hasOwnProperty (propertyDescriptions m) key"
  let ?m' = "step e (OnPropertyStatus data) m"
  from step_same_setup [of m e "OnPropertyStatus data"]
  have schema: "propertyDescriptions ?m' = propertyDescriptions m"
    by (simp add: same_setup_def)
  from step_within [OF reachable_within [OF assms], of e "OnPropertyStatus data"]
  have "\<forall>k \<in> fst ` set (properties ?m'). hasOwnProperty (propertyDescriptions ?m') k"
    by (auto simp: properties_within_schema_def list_all_iff)
  with unknown schema show "key \<notin> fst ` set (properties ?m')" by metis
qed

lemma level_extra:
  "object_literal [(''level'', v), (''extra'', v')] = [(''level'', v), (''extra'', v')]"
  by (simp add: object_literal_def assign_plain not_index hasOwnProperty_def)

theorem properties_only_schema_keys_witness:
  "reachable sample_env lamp_description
     (step sample_env (OnPropertyStatus (JObject [(''level'', JString ''42''), (''extra'', JNumber (Num 1))])) lamp)
   \<and> properties (step sample_env (OnPropertyStatus (JObject [(''level'', JString ''42''), (''extra'', JNumber (Num 1))])) lamp)
       = [(''level'', JString ''42'')]
   \<and> ''extra'' \<notin> fst ` set (properties
         (step sample_env (OnPropertyStatus (JObject [(''level'', JString ''42''), (''extra'', JNumber (Num 1))])) lamp))"
proof -
  let ?m = "step sample_env (OnPropertyStatus (JObject [(''level'', JString ''42''), (''extra'', JNumber (Num 1))])) lamp"
  have run: "reachable sample_env lamp_description ?m"
    unfolding lamp_def by (intro reachable.intros)
  from step_same_setup [of lamp sample_env "OnPropertyStatus (JObject [(''level'', JString ''42''), (''extra'', JNumber (Num 1))])"]
  have schema: "propertyDescriptions ?m = propertyDescriptions lamp"
    unfolding same_setup_def by blast
  from properties_only_schema_keys [OF run] have "\<forall>key \<in> fst ` set (properties ?m). hasOwnProperty (propertyDescriptions lamp) key"
    unfolding schema by blast
  moreover have "\<not> hasOwnProperty (propertyDescriptions lamp) ''extra''"
    by (simp add: lamp_schema lamp_properties_def hasOwnProperty_def)
  ultimately have dropped: "''extra'' \<notin> fst ` set (properties ?m)" by blast
  have "properties ?m = [(''level'', JString ''42'')]"
    using lamp_inherits
    by (simp add: onPropertyStatus_def onPropertyStatus_visiting_fold level_extra informative_def
        lamp_schema lamp_properties_def lamp_cache hasOwnProperty_def assign_plain not_index)
  with run dropped show ?thesis by blast
qed

subsection \<open>The event list\<close>

lemma entry_within_schema_single:
  "entry_within_schema m (JObject [(k, v)]) = hasOwnProperty (eventDescriptions m) k"
  by (simp add: entry_within_schema_def)

lemma entry_within_schema_cong:
  "eventDescriptions m' = eventDescriptions m \<Longrightarrow> entry_within_schema m' = entry_within_schema m"
  by (simp add: entry_within_schema_def fun_eq_iff)

lemma events_within_schema_cong:
  "events m' = events m \<Longrightarrow> eventDescriptions m' = eventDescriptions m \<Longrightarrow>
     events_within_schema m' = events_within_schema m"
proof -
  assume ev: "events m' = events m" and ed: "eventDescriptions m' = eventDescriptions m"
  from ed have "entry_within_schema m' = entry_within_schema m"
    by (rule entry_within_schema_cong)
  with ev show ?thesis
    unfolding events_within_schema_def by (simp split: jsval.splits)
qed

lemma onEvent_within:
  assumes "events_within_schema m" and "onEvent data m = Inr m'"
  shows "events_within_schema m'"
proof -
  from assms(1) obtain es where es: "events m = JArray es"
    and old: "list_all (entry_within_schema m) es"
    by (auto simp: events_within_schema_def split: jsval.splits)
  have builtin: "inherits_hasOwnProperty (eventDescriptions m) (eventDescriptions_proto m) \<or> own_entries data = []"
    using assms(2)
    by (cases "own_entries data") (auto simp: onEvent_def call_hasOwnProperty_def split: if_splits)
  let ?new = "map (\<lambda>(k, v). JObject [(k, v)]) (known_events m (own_entries data))"
  have new: "list_all (entry_within_schema m) ?new"
    by (auto simp: list_all_iff known_events_def entry_within_schema_single)
  from builtin have both: "events m' = JArray (es @ ?new) \<and> eventDescriptions m' = eventDescriptions m"
  proof
    assume "inherits_hasOwnProperty (eventDescriptions m) (eventDescriptions_proto m)"
    from onEvent_delta_lemma [OF es this, of data] assms(2)
    have "m' = m\<lparr>events := JArray (es @ ?new),
                    trace := trace m @ map (\<lambda>h. Invoke h (JObject (known_events m (own_entries data))))
                                           (handlers_for EVENT_OCCURRED m)\<rparr>"
      by simp
    then show ?thesis by simp
  next
    assume empty: "own_entries data = []"
    with assms(2) have "m' = handleEvent EVENT_OCCURRED (JObject []) m"
      by (simp add: onEvent_def)
    with es empty show ?thesis
      by (simp add: handleEvent_def known_events_def)
  qed
  then have evs: "events m' = JArray (es @ ?new)" and ed: "eventDescriptions m' = eventDescriptions m"
    by simp_all
  from ed have same: "entry_within_schema m' = entry_within_schema m"
    by (rule entry_within_schema_cong)
  from old new evs show ?thesis
    unfolding events_within_schema_def same by simp
qed

lemma step_events_within:
  assumes "events_within_schema m" and "\<forall>r. operation \<noteq> UpdateEvents_settled r"
  shows "events_within_schema (step e operation m)"
proof -
  from step_same_setup [of m e operation]
  have schema: "eventDescriptions (step e operation m) = eventDescriptions m"
    by (simp add: same_setup_def)
  from step_cases [of e operation m] show ?thesis
  proof (elim disjE exE conjE)
    assume "events (step e operation m) = events m"
    from events_within_schema_cong [OF this schema] assms(1) show ?thesis by simp
  next
    fix visited assume "onPropertyStatus_visiting visited m = Inr (step e operation m)"
    from onPropertyStatus_visiting_same_setup [OF this]
    have "events (step e operation m) = events m" by simp
    from events_within_schema_cong [OF this schema] assms(1) show ?thesis by simp
  next
    fix data assume "onEvent data m = Inr (step e operation m)"
    with assms(1) show ?thesis by (rule onEvent_within)
  next
    fix r assume "operation = UpdateEvents_settled r"
    with assms(2) show ?thesis by simp
  qed
qed

text \<open>
  C6, as the code has it. A new model has no events, and every operation other than
  the answer to the request of \<^verbatim>\<open>updateEvents\<close> keeps all keys of all entries of
  \<open>events\<close> within the event schema; \<^verbatim>\<open>onEvent\<close> in particular appends only entries
  whose key the schema knows. The answer to \<^verbatim>\<open>updateEvents\<close> becomes the event list
  as the server sent it.
\<close>

theorem events_within_schema_preserved:
  "events_within_schema (constructor e d)
   \<and> (events_within_schema m \<and> (\<forall>r. operation \<noteq> UpdateEvents_settled r)
        \<longrightarrow> events_within_schema (step e operation m))
   \<and> events (updateEvents_settled (Response b st txt (Some evs)) m) = evs"
proof (intro conjI impI)
  show "events_within_schema (constructor e d)"
    by (simp add: events_within_schema_def constructor_events)
  show "events (updateEvents_settled (Response b st txt (Some evs)) m) = evs"
    by (simp add: updateEvents_settled_def)
next
  assume "events_within_schema m \<and> (\<forall>r. operation \<noteq> UpdateEvents_settled r)"
  then show "events_within_schema (step e operation m)"
    using step_events_within by blast
qed

theorem events_within_schema_preserved_witness:
  "events_within_schema lamp
   \<and> events_within_schema (step sample_env (OnEvent (JObject [(''motion'', JObject []), (''overheated'', JObject [])])) lamp)
   \<and> events (step sample_env (OnEvent (JObject [(''motion'', JObject []), (''overheated'', JObject [])])) lamp)
       = JArray [JObject [(''overheated'', JObject [])]]"
proof -
  let ?op = "OnEvent (JObject [(''motion'', JObject []), (''overheated'', JObject [])])"
  from events_within_schema_preserved [of sample_env lamp_description lamp ?op]
  have start: "events_within_schema lamp"
    and keep: "events_within_schema lamp \<and> (\<forall>r. ?op \<noteq> UpdateEvents_settled r)
                 \<longrightarrow> events_within_schema (step sample_env ?op lamp)"
    by (simp_all add: lamp_def)
  have "\<forall>r. ?op \<noteq> UpdateEvents_settled r" by simp
  with start keep have after: "events_within_schema (step sample_env ?op lamp)" by blast
  have "onEvent (JObject [(''motion'', JObject []), (''overheated'', JObject [])]) lamp
          = Inr (lamp\<lparr>events := JArray [JObject [(''overheated'', JObject [])]]\<rparr>)"
    using onEvent_delta_lemma [OF lamp_events lamp_events_inherits, of "JObject [(''motion'', JObject []), (''overheated'', JObject [])]"]
    unfolding motion_overheated
    by (simp add: lamp_event_schema lamp_handlers known_events_def hasOwnProperty_def handlers_for_def)
  then have "events (step sample_env ?op lamp) = JArray [JObject [(''overheated'', JObject [])]]"
    by simp
  with start after show ?thesis by blast
qed

text \<open>
  C6, as the specification has it, fails: the lamp knows the event \<^verbatim>\<open>overheated\<close>
  only; when the server answers the request of \<^verbatim>\<open>updateEvents\<close> with a list that holds
  an event \<^verbatim>\<open>motion\<close>, that entry is in \<open>events\<close>.
\<close>

theorem updateEvents_counterexample:
  "events (step sample_env
             (UpdateEvents_settled (Response True 200 ''OK'' (Some (JArray [JObject [(''motion'', JObject [])]]))))
             lamp)
     = JArray [JObject [(''motion'', JObject [])]]
   \<and> \<not> hasOwnProperty (eventDescriptions lamp) ''motion''
   \<and> \<not> events_within_schema
         (step sample_env
            (UpdateEvents_settled (Response True 200 ''OK'' (Some (JArray [JObject [(''motion'', JObject [])]]))))
            lamp)"
  by (simp add: updateEvents_settled_def events_within_schema_def entry_within_schema_def
      lamp_event_schema hasOwnProperty_def)

subsection \<open>Removing the thing\<close>

text \<open>
  C8, as the code has it. \<^verbatim>\<open>removeThing\<close> issues a \<^verbatim>\<open>DELETE\<close> of the thing. When the
  answer is a success and the model has a WebSocket, the WebSocket is closed, all
  subscribers are released and the promise resolves. When the answer is not a
  success, the promise is rejected with \<^verbatim>\<open>Failed removing thing\<close> followed by the
  status text of the answer; when the request itself fails there is no answer and
  the promise is rejected with the fixed message
  \<^verbatim>\<open>Error occurred while removing thing\<close>. Both rejections leave the model as it was.
\<close>

theorem removeThing_outcomes:
  "removeThing m = (Pending, m\<lparr>trace := trace m @ [Fetch ''DELETE'' (href m) None]\<rparr>)
   \<and> (ws m \<noteq> None \<longrightarrow>
        removeThing_settled (Response True st txt body) m
          = (Fulfilled JUndefined, m\<lparr>handlers := [], trace := trace m @ [WebSocketClose]\<rparr>))
   \<and> removeThing_settled (Response False st txt body) m
        = (RejectedWith (''Failed removing thing '' @ txt), m)
   \<and> sublist txt (''Failed removing thing '' @ txt)
   \<and> removeThing_settled NetworkError m
        = (RejectedWith ''Error occurred while removing thing'', m)"
proof (intro conjI impI)
  show "removeThing m = (Pending, m\<lparr>trace := trace m @ [Fetch ''DELETE'' (href m) None]\<rparr>)"
    by (simp add: removeThing_def)
  show "removeThing_settled (Response False st txt body) m
        = (RejectedWith (''Failed removing thing '' @ txt), m)"
    unfolding removeThing_settled_def by simp
  show "sublist txt (''Failed removing thing '' @ txt)"
    by (rule sublist_suffix)
  show "removeThing_settled NetworkError m
        = (RejectedWith ''Error occurred while removing thing'', m)"
    unfolding removeThing_settled_def by simp
next
  assume "ws m \<noteq> None"
  then obtain w where "ws m = Some w" by blast
  then show "removeThing_settled (Response True st txt body) m
          = (Fulfilled JUndefined, m\<lparr>handlers := [], trace := trace m @ [WebSocketClose]\<rparr>)"
    by (simp add: removeThing_settled_def cleanup_def Model_cleanup_def)
qed

theorem removeThing_outcomes_witness:
  "ws lamp \<noteq> None
   \<and> removeThing_settled (Response True 204 ''No Content'' None) (subscribe EVENT_OCCURRED 7 lamp)
       = (Fulfilled JUndefined, lamp\<lparr>handlers := [], trace := trace lamp @ [WebSocketClose]\<rparr>)
   \<and> removeThing_settled (Response False 404 ''Not Found'' None) (subscribe EVENT_OCCURRED 7 lamp)
       = (RejectedWith ''Failed removing thing Not Found'', lamp\<lparr>handlers := [(EVENT_OCCURRED, 7)]\<rparr>)"
proof -
  have sub: "subscribe EVENT_OCCURRED 7 lamp = lamp\<lparr>handlers := [(EVENT_OCCURRED, 7)]\<rparr>"
    by (simp add: subscribe_def Model_subscribe_def lamp_handlers)
  have attached: "ws (subscribe EVENT_OCCURRED 7 lamp) \<noteq> None"
    by (simp add: sub lamp_ws)
  from removeThing_outcomes [of "subscribe EVENT_OCCURRED 7 lamp" 204 "''No Content''" None] attached
  have ok: "removeThing_settled (Response True 204 ''No Content'' None) (subscribe EVENT_OCCURRED 7 lamp)
       = (Fulfilled JUndefined, lamp\<lparr>handlers := [], trace := trace lamp @ [WebSocketClose]\<rparr>)"
    by (simp add: sub)
  from removeThing_outcomes [of "subscribe EVENT_OCCURRED 7 lamp" 404 "''Not Found''" None]
  have failed: "removeThing_settled (Response False 404 ''Not Found'' None) (subscribe EVENT_OCCURRED 7 lamp)
       = (RejectedWith ''Failed removing thing Not Found'', lamp\<lparr>handlers := [(EVENT_OCCURRED, 7)]\<rparr>)"
    by (simp add: sub)
  from ok failed show ?thesis by (simp add: lamp_ws)
qed

text \<open>
  C8, as the specification has it, fails for a transport failure: there is no answer
  and so no status text, and the message of the rejection is a constant.
\<close>

theorem removeThing_counterexample:
  "removeThing_settled NetworkError lamp = (RejectedWith ''Error occurred while removing thing'', lamp)
   \<and> remote_status_text NetworkError = None"
  by (simp add: removeThing_settled_def)

subsection \<open>The stream connection\<close>

lemma reachable_connection:
  assumes "reachable e d m"
  shows "if has_href d then \<exists>w. ws m = Some w \<and> opened (trace m) = [ws_url w]
         else ws m = None \<and> opened (trace m) = []"
proof -
  from reachable_same_setup [OF assms]
  have url: "map_option ws_url (ws m) = map_option ws_url (ws (constructor e d))"
    and op: "opened (trace m) = opened (trace (constructor e d))"
    by (simp_all add: same_setup_def)
  show ?thesis
  proof (cases "has_href d")
    case True
    from constructor_attached [OF True, of e] obtain w0 where
      "ws (constructor e d) = Some w0" and "opened (trace (constructor e d)) = [ws_url w0]"
      by blast
    with url op True show ?thesis by auto
  next
    case False
    from constructor_detached [OF False, of e] url op False show ?thesis by simp
  qed
qed

text \<open>
  C9, as the code has it. A model built from a description with an address has, in
  every state of every run, a WebSocket, and it is the only one the model ever
  opened. It is closed at teardown and nowhere else: the constructor makes no call
  of \<^verbatim>\<open>close\<close>, a call of \<^verbatim>\<open>cleanup\<close> succeeds and makes exactly one, and so does
  every operation that tears the model down (\<^verbatim>\<open>cleanup\<close> itself, or the successful
  answer to \<^verbatim>\<open>removeThing\<close>, which calls it), while every other operation makes
  none. A model built from a description without address has no WebSocket and never
  opens one.
\<close>

theorem one_stream_connection:
  assumes "reachable e d m"
  shows "(has_href d \<longrightarrow>
            (\<exists>w. ws m = Some w \<and> opened (trace m) = [ws_url w])
            \<and> closes (trace (constructor e d)) = 0
            \<and> (\<exists>m'. cleanup m = Inr m' \<and> trace m' = trace m @ [WebSocketClose])
            \<and> (\<forall>operation. closes (trace (step e operation m))
                               = closes (trace m) + (if tears_down operation then 1 else 0)))
     \<and> (\<not> has_href d \<longrightarrow> ws m = None \<and> opened (trace m) = [])"
proof (intro conjI impI allI)
  assume attached: "has_href d"
  with reachable_connection [OF assms] obtain w where w: "ws m = Some w"
    and one: "opened (trace m) = [ws_url w]" by auto
  from w one show "\<exists>w. ws m = Some w \<and> opened (trace m) = [ws_url w]" by blast
  from constructor_attached [OF attached, of e] show "closes (trace (constructor e d)) = 0" by blast
  from w show "\<exists>m'. cleanup m = Inr m' \<and> trace m' = trace m @ [WebSocketClose]"
    by (simp add: cleanup_def Model_cleanup_def)
  fix operation
  from w have "ws m \<noteq> None" by simp
  then show "closes (trace (step e operation m))
               = closes (trace m) + (if tears_down operation then 1 else 0)"
    by (rule step_closes)
next
  assume "\<not> has_href d"
  with reachable_connection [OF assms] show "ws m = None" and "opened (trace m) = []" by simp_all
qed

theorem one_stream_connection_witness:
  "reachable sample_env lamp_description (step sample_env WsOpen lamp)
   \<and> has_href lamp_description
   \<and> opened (trace (step sample_env WsOpen lamp)) = [''ws://gateway.local/things/lamp?jwt=token'']
   \<and> closes (trace (step sample_env Cleanup (step sample_env WsOpen lamp)))
       = closes (trace (step sample_env WsOpen lamp)) + 1
   \<and> closes (trace (step sample_env (UpdateThing JNull) (step sample_env WsOpen lamp)))
       = closes (trace (step sample_env WsOpen lamp))
   \<and> reachable sample_env detached_description (constructor sample_env detached_description)
   \<and> \<not> has_href detached_description
   \<and> ws (constructor sample_env detached_description) = None"
proof -
  let ?m = "step sample_env WsOpen lamp"
  have run: "reachable sample_env lamp_description ?m"
    unfolding lamp_def by (intro reachable.intros)
  have attached: "has_href lamp_description"
    by (simp add: has_href_def lamp_description_def)
  have run': "reachable sample_env detached_description (constructor sample_env detached_description)"
    by (rule reachable.constructed)
  have detached: "\<not> has_href detached_description"
    by (simp add: has_href_def detached_description_def lamp_description_def)
  from one_stream_connection [OF run] attached
  obtain w where w: "ws ?m = Some w"
    and one: "opened (trace ?m) = [ws_url w]"
    and count: "\<forall>operation. closes (trace (step sample_env operation ?m))
                               = closes (trace ?m) + (if tears_down operation then 1 else 0)"
    by blast
  have "map_option ws_url (ws ?m) = Some ''ws://gateway.local/things/lamp?jwt=token''"
    by (simp add: ws_open_def lamp_ws lamp_event_schema Let_def)
  with w have "ws_url w = ''ws://gateway.local/things/lamp?jwt=token''" by simp
  with one have opened: "opened (trace ?m) = [''ws://gateway.local/things/lamp?jwt=token'']"
    by simp
  from count [rule_format, of Cleanup]
  have torn: "closes (trace (step sample_env Cleanup ?m)) = closes (trace ?m) + 1"
    by (simp only: tears_down.simps if_True)
  from count [rule_format, of "UpdateThing JNull"]
  have kept: "closes (trace (step sample_env (UpdateThing JNull) ?m)) = closes (trace ?m)"
    by (simp only: tears_down.simps if_False add_0_right)
  from one_stream_connection [OF run'] detached
  have none: "ws (constructor sample_env detached_description) = None" by blast
  from run attached opened torn kept run' detached none show ?thesis by blast
qed

text \<open>
  C9, as the specification has it, fails for a description without address:
  \<^verbatim>\<open>initWebsocket\<close> returns before it opens anything.
\<close>

theorem detached_counterexample:
  "\<not> has_href detached_description
   \<and> ws (constructor sample_env detached_description) = None
   \<and> opened (trace (constructor sample_env detached_description)) = []"
proof -
  have "\<not> has_href detached_description"
    by (simp add: has_href_def detached_description_def lamp_description_def)
  with constructor_detached [of detached_description sample_env] show ?thesis by simp
qed

end
